theory Spec2Isabelle
  imports Main "HOL-Library.AList" "HOL-Library.Log_Nat" "HOL-Library.Multiset"
begin

section \<open>Python values and exceptions\<close>

text \<open>
  The handlers and the statistics service work on values decoded from JSON and on
  model objects of the datastore layer. A decoded JSON value is one of Python's
  None, bool, int, string, list and dict; a dict is kept as an association list, whose
  order stands for the (arbitrary but fixed) iteration order of the Python dict.
  Non-integral numbers are not part of the model.
\<close>

datatype json =
    PNone
  | PBool bool
  | PInt int
  | PStr string
  | PList "json list"
  | PDict "(string \<times> json) list"

text \<open>
  Every \<open>raise\<close> of the source, and the built-in exceptions that its indexing and its
  conversion of an int to a float can raise.
\<close>

datatype py_error =
    IndexError
  | KeyError
  | TypeError
  | AttributeError
  | OverflowError
  | ValueError string
  | InvalidInputException string
  | UnauthorizedUserException string

text \<open>Sequencing of steps that may raise: the first exception ends the computation.\<close>

definition and_then :: "py_error + 'a \<Rightarrow> ('a \<Rightarrow> py_error + 'b) \<Rightarrow> py_error + 'b" where
  "and_then m f = (case m of Inl err \<Rightarrow> Inl err | Inr x \<Rightarrow> f x)"

section \<open>Model objects\<close>

text \<open>
  The classes of \<open>exp_domain\<close>, \<open>state_models\<close>, \<open>param_models\<close> and
  \<open>stats_domain\<close> are declared outside the two source files; the records below hold
  the attributes that the source reads or assigns.
\<close>

record rule_spec =
  rule_name :: json
  rule_inputs :: json
  rule_dest :: json
  rule_feedback :: json

record answer_handler =
  handler_name :: string
  rule_specs :: "rule_spec list"

record widget_instance =
  widget_id :: json
  params :: json
  sticky :: json
  handlers :: "answer_handler list"

record parameter =
  param_name :: json
  param_obj_type :: json
  param_description :: json
  param_values :: json

record content_item =
  content_type :: json
  content_value :: json

record state =
  state_id :: string
  state_name :: string
  param_changes :: "parameter list"
  widget :: widget_instance
  content :: "content_item list"

record exploration =
  exploration_id :: string
  title :: json
  category :: json
  is_public :: bool
  image_id :: json
  editor_ids :: "json list"
  parameters :: "parameter list"
  state_ids :: "string list"
  init_state_id :: string

record state_counter =
  first_entry_count :: int
  total_entry_count :: int
  no_answer_count :: int

record answer_log =
  total_answer_count :: int
  get_top_answers :: "nat \<Rightarrow> (json \<times> int) list"

text \<open>
  The datastore layer as the statistics service sees it: the lookups
  \<open>Exploration.get\<close>, \<open>StateCounter.get\<close>, \<open>StateRuleAnswerLog.get\<close> and
  \<open>exploration.get_state_by_id\<close>, the property \<open>default_rule_spec\<close> of a handler,
  \<open>str(rule)\<close>, and the two constants \<open>state_models.DEFAULT_RULESPEC_STR\<close> and
  \<open>feconf.END_DEST\<close>. All of them are parameters of the model.
\<close>

record datastore =
  Exploration_get :: "string \<Rightarrow> exploration"
  StateCounter_get :: "string \<Rightarrow> string \<Rightarrow> state_counter"
  StateRuleAnswerLog_get :: "string \<Rightarrow> string \<Rightarrow> string \<Rightarrow> answer_log"
  get_state_by_id :: "exploration \<Rightarrow> string \<Rightarrow> state"
  default_rule_spec :: "answer_handler \<Rightarrow> rule_spec"
  rule_str :: "rule_spec \<Rightarrow> string"
  DEFAULT_RULESPEC_STR :: string
  END_DEST :: string

section \<open>stats\_services.py\<close>

definition IMPROVE_TYPE_DEFAULT :: string where
  "IMPROVE_TYPE_DEFAULT = ''default''"

definition IMPROVE_TYPE_INCOMPLETE :: string where
  "IMPROVE_TYPE_INCOMPLETE = ''incomplete''"

text \<open>
  Python's \<open>sorted(xs, key=k, reverse=True)\<close>: a stable sort in descending order of the
  key, which CPython computes by reversing the list, sorting it stably in ascending
  order, and reversing the result.
\<close>

definition sorted_reverse :: "('a \<Rightarrow> int) \<Rightarrow> 'a list \<Rightarrow> 'a list" where
  "sorted_reverse k xs = rev (sort_key k (rev xs))"

record flag =
  flag_rank :: int
  flag_improve_type :: string

record ranked_state =
  r_exp_id :: string
  r_exp_name :: json
  r_state_id :: string
  r_state_name :: string
  r_rank :: int
  r_type :: string
  r_top_default_answers :: "(json \<times> int) list"

subsection \<open>Double-precision arithmetic\<close>

text \<open>
  The threshold \<open>0.2 * total_entry_count\<close> is computed in double precision (IEEE 754
  binary64): the int is converted to the nearest double, which raises OverflowError when
  that double would be out of range, and the product of the two doubles is rounded to
  the nearest double; a tie goes to the even mantissa in both steps. A finite double is
  \<open>mantissa * 2 ^ exponent\<close> with a mantissa of at most 53 bits. The model keeps the
  exponent unbounded: the product of \<open>0.2\<close> and a nonzero converted int is, in absolute
  value, at least \<open>0.2\<close> and below the converted int, so it neither underflows nor
  overflows.
\<close>

record double =
  mantissa :: int
  exponent :: int

text \<open>
  The integer nearest to \<open>m / 2 ^ s\<close> for \<open>m \<ge> 0\<close>, the even one of the two when
  \<open>m / 2 ^ s\<close> lies halfway between them.
\<close>

definition round_half_even :: "int \<Rightarrow> nat \<Rightarrow> int" where
  "round_half_even m s =
     (let q = m div 2 ^ s;
          r = m mod 2 ^ s
      in if 2 * r < 2 ^ s then q
         else if 2 ^ s < 2 * r then q + 1
         else if even q then q else q + 1)"

text \<open>
  The double nearest to \<open>m * 2 ^ e\<close>: a mantissa of more than 53 bits is shifted right
  by the bits in excess (\<open>bitlen\<close> is the \<open>bit_length\<close> of Python's ints) and rounded.
\<close>

definition round_double :: "int \<Rightarrow> int \<Rightarrow> double" where
  "round_double m e =
     (let s = nat (bitlen \<bar>m\<bar> - 53)
      in \<lparr>mantissa = sgn m * round_half_even \<bar>m\<bar> s, exponent = e + int s\<rparr>)"

text \<open>
  The conversion of an int that Python performs on the int operand of \<open>*\<close>: the largest
  double is below \<open>2 ^ 1024\<close>.
\<close>

definition py_float :: "int \<Rightarrow> py_error + double" where
  "py_float n =
     (let d = round_double n 0
      in if 2 ^ 1024 \<le> \<bar>mantissa d\<bar> * 2 ^ nat (exponent d) then Inl OverflowError
         else Inr d)"

definition float_mul :: "double \<Rightarrow> double \<Rightarrow> double" where
  "float_mul a b = round_double (mantissa a * mantissa b) (exponent a + exponent b)"

text \<open>The literal \<open>0.2\<close>: the double nearest to one fifth, \<open>(2 ^ 54 + 1) / 5 / 2 ^ 54\<close>.\<close>

definition point_two :: double where
  "point_two = \<lparr>mantissa = 3602879701896397, exponent = - 54\<rparr>"

text \<open>
  \<open>c > d\<close> for an int \<open>c\<close> and a double \<open>d\<close>: Python compares the two values exactly,
  without converting the int.
\<close>

definition int_gt_double :: "int \<Rightarrow> double \<Rightarrow> bool" where
  "int_gt_double c d =
     (if 0 \<le> exponent d then mantissa d * 2 ^ nat (exponent d) < c
      else mantissa d < c * 2 ^ nat (- exponent d))"

text \<open>The expression \<open>0.2 * total_entry_count\<close> of lines 157 and 164.\<close>

definition fifth_of :: "int \<Rightarrow> py_error + double" where
  "fifth_of entries = and_then (py_float entries) (\<lambda>d. Inr (float_mul point_two d))"

subsection \<open>get\_top\_improvable\_states\<close>

text \<open>
  Lines 154 to 167: the flags a state with a nonzero entry count is eligible for. The
  first test evaluates \<open>0.2 * total_entry_count\<close> before anything else; its second
  conjunct reads \<open>state.widget.handlers[0]\<close>, which raises IndexError on an empty
  handler list, and Python evaluates it only when the first conjunct holds. The second
  test computes the same product again.
\<close>

definition eligible_flags ::
  "datastore \<Rightarrow> state \<Rightarrow> int \<Rightarrow> int \<Rightarrow> int \<Rightarrow> py_error + flag list" where
  "eligible_flags ds st default_count no_answer_submitted_count entries =
     and_then (fifth_of entries) (\<lambda>threshold.
     and_then (if int_gt_double default_count threshold
               then (case handlers (widget st) of
                       [] \<Rightarrow> Inl IndexError
                     | h # _ \<Rightarrow> Inr (rule_dest (default_rule_spec ds h) = PStr (state_id st)))
               else Inr False) (\<lambda>is_default.
       Inr ((if is_default
             then [\<lparr>flag_rank = default_count, flag_improve_type = IMPROVE_TYPE_DEFAULT\<rparr>]
             else [])
            @ (if int_gt_double no_answer_submitted_count threshold
               then [\<lparr>flag_rank = no_answer_submitted_count,
                      flag_improve_type = IMPROVE_TYPE_INCOMPLETE\<rparr>]
               else []))))"

text \<open>Lines 169 to 175: rank and type of the best flag, \<open>(0, '')\<close> when there is none.\<close>

definition best_flag :: "flag list \<Rightarrow> int \<times> string" where
  "best_flag flags =
     (case sorted_reverse flag_rank flags of
        [] \<Rightarrow> (0, '''')
      | f # _ \<Rightarrow> (flag_rank f, flag_improve_type f))"

text \<open>
  The body of the inner loop (lines 142 to 186) for one state: \<open>Inr None\<close> is the
  \<open>continue\<close> of a state that was never entered, \<open>Inr (Some r)\<close> the dict appended to
  \<open>ranked_states\<close>.
\<close>

definition rank_state ::
  "datastore \<Rightarrow> string \<Rightarrow> exploration \<Rightarrow> string \<Rightarrow> py_error + ranked_state option" where
  "rank_state ds eid expl sid =
     (let state_counts = StateCounter_get ds eid sid;
          default_rule_answer_log =
            StateRuleAnswerLog_get ds (exploration_id expl) sid (DEFAULT_RULESPEC_STR ds);
          entries = total_entry_count state_counts
      in if entries = 0 then Inr None
         else
           let default_count = total_answer_count default_rule_answer_log;
               no_answer_submitted_count = no_answer_count state_counts;
               st = get_state_by_id ds expl sid
           in case eligible_flags ds st default_count no_answer_submitted_count entries of
                Inl err \<Rightarrow> Inl err
              | Inr flags \<Rightarrow>
                  Inr (Some \<lparr>r_exp_id = eid,
                             r_exp_name = title expl,
                             r_state_id = sid,
                             r_state_name = state_name st,
                             r_rank = fst (best_flag flags),
                             r_type = snd (best_flag flags),
                             r_top_default_answers =
                               get_top_answers default_rule_answer_log 5\<rparr>))"

text \<open>The loop over the states of one exploration, appending to \<open>ranked_states\<close>.\<close>

fun rank_states ::
  "datastore \<Rightarrow> string \<Rightarrow> exploration \<Rightarrow> string list \<Rightarrow> ranked_state list
     \<Rightarrow> py_error + ranked_state list" where
  "rank_states ds eid expl [] ranked = Inr ranked"
| "rank_states ds eid expl (sid # sids) ranked =
     (case rank_state ds eid expl sid of
        Inl err \<Rightarrow> Inl err
      | Inr None \<Rightarrow> rank_states ds eid expl sids ranked
      | Inr (Some r) \<Rightarrow> rank_states ds eid expl sids (ranked @ [r]))"

text \<open>The loop over the exploration ids.\<close>

fun rank_explorations ::
  "datastore \<Rightarrow> string list \<Rightarrow> ranked_state list \<Rightarrow> py_error + ranked_state list" where
  "rank_explorations ds [] ranked = Inr ranked"
| "rank_explorations ds (eid # eids) ranked =
     (case rank_states ds eid (Exploration_get ds eid)
             (state_ids (Exploration_get ds eid)) ranked of
        Inl err \<Rightarrow> Inl err
      | Inr ranked' \<Rightarrow> rank_explorations ds eids ranked')"

definition get_top_improvable_states ::
  "datastore \<Rightarrow> string list \<Rightarrow> nat \<Rightarrow> py_error + ranked_state list" where
  "get_top_improvable_states ds exploration_ids N =
     (case rank_explorations ds exploration_ids [] of
        Inl err \<Rightarrow> Inl err
      | Inr ranked_states \<Rightarrow>
          Inr (take N (sorted_reverse r_rank
                         (filter (\<lambda>s. r_rank s \<noteq> 0) ranked_states))))"

text \<open>Every state of the given explorations has at least one answer handler.\<close>

definition handlers_present :: "datastore \<Rightarrow> string list \<Rightarrow> bool" where
  "handlers_present ds exploration_ids =
     (\<forall>eid \<in> set exploration_ids.
        \<forall>sid \<in> set (state_ids (Exploration_get ds eid)).
          handlers (widget (get_state_by_id ds (Exploration_get ds eid) sid)) \<noteq> [])"

text \<open>
  Every total entry count read is, in absolute value, below \<open>2 ^ 1023\<close>, so that its
  conversion to a double raises no OverflowError.
\<close>

definition entries_convertible :: "datastore \<Rightarrow> string list \<Rightarrow> bool" where
  "entries_convertible ds exploration_ids =
     (\<forall>eid \<in> set exploration_ids.
        \<forall>sid \<in> set (state_ids (Exploration_get ds eid)).
          \<bar>total_entry_count (StateCounter_get ds eid sid)\<bar> < 2 ^ 1023)"

subsection \<open>export\_exploration\_stats\_to\_dict\<close>

text \<open>
  The dicts built by the function are association lists updated in place
  (\<open>d[k] = v\<close> is \<open>AList.update k v d\<close>); dicts with fixed keys are records.
\<close>

record rule_answers =
  ra_answers :: "(json \<times> int) list"

record answers_entry =
  ae_name :: string
  ae_rules :: "(string \<times> rule_answers) list"

record state_count_entry =
  sc_name :: string
  sc_count :: int

record rule_stat =
  rs_answers :: "(json \<times> int) list"
  rs_chartData :: json

record state_stat =
  ss_name :: string
  ss_count :: int
  ss_rule_stats :: "(string \<times> rule_stat) list"
  ss_no_answer_chartdata :: json

record exploration_stats =
  num_visits :: int
  num_completions :: int
  state_stats :: "(string \<times> state_stat) list"

text \<open>Lines 81 to 88: the rules of one state, keyed by \<open>str(rule)\<close>.\<close>

definition collect_rules ::
  "datastore \<Rightarrow> string \<Rightarrow> state \<Rightarrow> (string \<times> rule_answers) list" where
  "collect_rules ds eid st =
     fold (\<lambda>handler rules.
             fold (\<lambda>rule rules'.
                     AList.update (rule_str ds rule)
                       \<lparr>ra_answers =
                          get_top_answers
                            (StateRuleAnswerLog_get ds eid (state_id st) (rule_str ds rule)) 10\<rparr>
                       rules')
                  (rule_specs handler) rules)
          (handlers (widget st)) []"

text \<open>Lines 73 to 88: the dict \<open>answers\<close>, keyed by \<open>state.id\<close>.\<close>

definition collect_answers ::
  "datastore \<Rightarrow> string \<Rightarrow> exploration \<Rightarrow> (string \<times> answers_entry) list" where
  "collect_answers ds eid expl =
     fold (\<lambda>sid answers.
             let st = get_state_by_id ds expl sid
             in AList.update (state_id st)
                  \<lparr>ae_name = state_name st, ae_rules = collect_rules ds eid st\<rparr> answers)
          (state_ids expl) []"

text \<open>Lines 90 to 98: the dict \<open>state_counts\<close>, keyed by the state id of the loop.\<close>

definition collect_state_counts ::
  "datastore \<Rightarrow> string \<Rightarrow> exploration \<Rightarrow> (string \<times> state_count_entry) list" where
  "collect_state_counts ds eid expl =
     fold (\<lambda>sid state_counts.
             let st = get_state_by_id ds expl sid
             in AList.update sid
                  \<lparr>sc_name = state_name st,
                   sc_count = total_entry_count (StateCounter_get ds eid sid)\<rparr> state_counts)
          (state_ids expl) []"

text \<open>
  Lines 105 to 116: the loop over the rules of one state; it returns \<open>rule_stats\<close> and
  the running \<open>all_rule_count\<close>. The innermost loop adds every count of the rule's
  answers to both counters.
\<close>

fun rule_stats_loop ::
  "int \<Rightarrow> (string \<times> rule_answers) list \<Rightarrow> (string \<times> rule_stat) list \<Rightarrow> int
     \<Rightarrow> (string \<times> rule_stat) list \<times> int" where
  "rule_stats_loop state_count [] rule_stats all_rule_count = (rule_stats, all_rule_count)"
| "rule_stats_loop state_count ((rule, entry) # rest) rule_stats all_rule_count =
     (let rule_count = sum_list (map snd (ra_answers entry))
      in rule_stats_loop state_count rest
           (AList.update rule
              \<lparr>rs_answers = ra_answers entry,
               rs_chartData =
                 PList [PList [PStr '''', PStr ''This rule'', PStr ''Other answers''],
                        PList [PStr '''', PInt rule_count, PInt (state_count - rule_count)]]\<rparr>
              rule_stats)
           (all_rule_count + rule_count))"

text \<open>
  Lines 102 to 126: the entry of \<open>state_stats\<close> for one state, from its count and its
  entry of \<open>answers\<close>.
\<close>

definition make_state_stat :: "int \<Rightarrow> answers_entry \<Rightarrow> state_stat" where
  "make_state_stat state_count entry =
     (let (rule_stats, all_rule_count) =
            rule_stats_loop state_count (ae_rules entry) [] 0
      in \<lparr>ss_name = ae_name entry,
          ss_count = state_count,
          ss_rule_stats = rule_stats,
          ss_no_answer_chartdata =
            PList [PList [PStr '''', PStr ''No answer'', PStr ''Answer given''],
                   PList [PStr '''', PInt (state_count - all_rule_count),
                          PInt all_rule_count]]\<rparr>)"

text \<open>
  Lines 100 to 126: the loop over the keys of \<open>answers\<close>, each with its entry. The lookup
  \<open>state_counts[state_id]\<close> raises KeyError for a key that \<open>state_counts\<close> lacks.
\<close>

fun state_stats_loop ::
  "(string \<times> state_count_entry) list \<Rightarrow> (string \<times> answers_entry) list
     \<Rightarrow> (string \<times> state_stat) list \<Rightarrow> py_error + (string \<times> state_stat) list" where
  "state_stats_loop state_counts [] stats = Inr stats"
| "state_stats_loop state_counts ((sid, entry) # rest) stats =
     (case map_of state_counts sid of
        None \<Rightarrow> Inl KeyError
      | Some c \<Rightarrow>
          state_stats_loop state_counts rest
            (AList.update sid (make_state_stat (sc_count c) entry) stats))"

definition export_exploration_stats_to_dict ::
  "datastore \<Rightarrow> string \<Rightarrow> py_error + exploration_stats" where
  "export_exploration_stats_to_dict ds eid =
     (let expl = Exploration_get ds eid;
          visits = first_entry_count (StateCounter_get ds eid (init_state_id expl));
          completions = first_entry_count (StateCounter_get ds eid (END_DEST ds));
          answers = collect_answers ds eid expl;
          state_counts = collect_state_counts ds eid expl
      in case state_stats_loop state_counts answers [] of
           Inl err \<Rightarrow> Inl err
         | Inr stats \<Rightarrow>
             Inr \<lparr>num_visits = visits, num_completions = completions,
                  state_stats = stats\<rparr>)"

text \<open>
  The datastore returns, for every state id of the exploration, the state with that id.
\<close>

definition state_ids_consistent :: "datastore \<Rightarrow> exploration \<Rightarrow> bool" where
  "state_ids_consistent ds expl =
     (\<forall>sid \<in> set (state_ids expl). state_id (get_state_by_id ds expl sid) = sid)"

subsection \<open>The two conditions for flagging a state\<close>

text \<open>
  The conditions in the words of the specification, read over the exact numbers: a count
  exceeds \<open>0.2\<close> times the entries when five times the count exceeds the entries. The
  default-rule answers exceed a fifth of the entries and the default rule of the first
  handler leads back to the state; the visits without an answer exceed a fifth of the
  entries.
\<close>

definition spec_exceeds_fifth :: "int \<Rightarrow> int \<Rightarrow> bool" where
  "spec_exceeds_fifth cnt entries = (entries < 5 * cnt)"

definition meets_default :: "datastore \<Rightarrow> string \<Rightarrow> string \<Rightarrow> bool" where
  "meets_default ds eid sid =
     (let expl = Exploration_get ds eid;
          st = get_state_by_id ds expl sid
      in spec_exceeds_fifth
           (total_answer_count
              (StateRuleAnswerLog_get ds (exploration_id expl) sid (DEFAULT_RULESPEC_STR ds)))
           (total_entry_count (StateCounter_get ds eid sid))
         \<and> (case handlers (widget st) of
               [] \<Rightarrow> False
             | h # _ \<Rightarrow> rule_dest (default_rule_spec ds h) = PStr (state_id st)))"

definition meets_incomplete :: "datastore \<Rightarrow> string \<Rightarrow> string \<Rightarrow> bool" where
  "meets_incomplete ds eid sid =
     spec_exceeds_fifth (no_answer_count (StateCounter_get ds eid sid))
       (total_entry_count (StateCounter_get ds eid sid))"

text \<open>
  Every total entry count read is non-negative and below \<open>2 ^ 52\<close>, the range in which
  the double-precision threshold of the source agrees with the exact one.
\<close>

definition entries_exact :: "datastore \<Rightarrow> string list \<Rightarrow> bool" where
  "entries_exact ds exploration_ids =
     (\<forall>eid \<in> set exploration_ids.
        \<forall>sid \<in> set (state_ids (Exploration_get ds eid)).
          0 \<le> total_entry_count (StateCounter_get ds eid sid) \<and>
          total_entry_count (StateCounter_get ds eid sid) < 2 ^ 52)"

section \<open>Python operations on decoded values\<close>

text \<open>Truth value of a value in a condition (\<open>if x:\<close>, \<open>not x\<close>).\<close>

fun truthy :: "json \<Rightarrow> bool" where
  "truthy PNone = False"
| "truthy (PBool b) = b"
| "truthy (PInt i) = (i \<noteq> 0)"
| "truthy (PStr s) = (s \<noteq> [])"
| "truthy (PList xs) = (xs \<noteq> [])"
| "truthy (PDict kvs) = (kvs \<noteq> [])"

text \<open>
  The request payload is a dict with string keys: \<open>self.payload.get(k)\<close> is None for
  a missing key, and \<open>k in self.payload\<close> tests the domain.
\<close>

type_synonym payload = "string \<rightharpoonup> json"

definition payload_get :: "payload \<Rightarrow> string \<Rightarrow> json" where
  "payload_get p k = (case p k of None \<Rightarrow> PNone | Some v \<Rightarrow> v)"

fun map_err :: "('a \<Rightarrow> py_error + 'b) \<Rightarrow> 'a list \<Rightarrow> py_error + 'b list" where
  "map_err f [] = Inr []"
| "map_err f (x # xs) =
     and_then (f x) (\<lambda>y. and_then (map_err f xs) (\<lambda>ys. Inr (y # ys)))"

text \<open>The items a \<open>for\<close> loop visits; None, bools and ints are not iterable.\<close>

fun py_iter :: "json \<Rightarrow> py_error + json list" where
  "py_iter (PList xs) = Inr xs"
| "py_iter (PStr s) = Inr (map (\<lambda>c. PStr [c]) s)"
| "py_iter (PDict kvs) = Inr (map (\<lambda>kv. PStr (fst kv)) kvs)"
| "py_iter v = Inl TypeError"

text \<open>\<open>len(x)\<close>.\<close>

fun py_len :: "json \<Rightarrow> py_error + nat" where
  "py_len (PList xs) = Inr (length xs)"
| "py_len (PStr s) = Inr (length s)"
| "py_len (PDict kvs) = Inr (length kvs)"
| "py_len v = Inl TypeError"

text \<open>An integer index into a sequence of length \<open>n\<close>; negative indices count from the end.\<close>

definition py_index :: "int \<Rightarrow> nat \<Rightarrow> py_error + nat" where
  "py_index i n =
     (if 0 \<le> i \<and> i < int n then Inr (nat i)
      else if i < 0 \<and> 0 \<le> i + int n then Inr (nat (i + int n))
      else Inl IndexError)"

text \<open>The values Python accepts as a sequence index: ints, and bools as 0 and 1.\<close>

fun as_index :: "json \<Rightarrow> int option" where
  "as_index (PInt i) = Some i"
| "as_index (PBool b) = Some (if b then 1 else 0)"
| "as_index v = None"

text \<open>
  \<open>obj[key]\<close>. A dict has string keys only, so any other hashable key is missing from
  it and a list or dict as key is unhashable; a list or string takes an integer index.
\<close>

fun py_getitem :: "json \<Rightarrow> json \<Rightarrow> py_error + json" where
  "py_getitem (PDict kvs) (PStr k) =
     (case map_of kvs k of None \<Rightarrow> Inl KeyError | Some v \<Rightarrow> Inr v)"
| "py_getitem (PDict kvs) (PList xs) = Inl TypeError"
| "py_getitem (PDict kvs) (PDict ks) = Inl TypeError"
| "py_getitem (PDict kvs) k = Inl KeyError"
| "py_getitem (PList xs) k =
     (case as_index k of
        None \<Rightarrow> Inl TypeError
      | Some i \<Rightarrow> and_then (py_index i (length xs)) (\<lambda>j. Inr (xs ! j)))"
| "py_getitem (PStr s) k =
     (case as_index k of
        None \<Rightarrow> Inl TypeError
      | Some i \<Rightarrow> and_then (py_index i (length s)) (\<lambda>j. Inr (PStr [s ! j])))"
| "py_getitem v k = Inl TypeError"

text \<open>\<open>obj.get(key)\<close>: a method of dicts only, None for a missing key.\<close>

definition dict_get :: "(string \<times> json) list \<Rightarrow> string \<Rightarrow> json" where
  "dict_get kvs k = (case map_of kvs k of None \<Rightarrow> PNone | Some v \<Rightarrow> v)"

fun py_get :: "json \<Rightarrow> string \<Rightarrow> py_error + json" where
  "py_get (PDict kvs) k = Inr (dict_get kvs k)"
| "py_get v k = Inl AttributeError"

text \<open>\<open>sub in s\<close> for strings.\<close>

fun contains_str :: "string \<Rightarrow> string \<Rightarrow> bool" where
  "contains_str [] sub = (sub = [])"
| "contains_str (c # cs) sub = (take (length sub) (c # cs) = sub \<or> contains_str cs sub)"

section \<open>editor.py\<close>

subsection \<open>NewExploration.post\<close>

text \<open>
  The functions of \<open>exp_services\<close> that create an exploration in the datastore \<open>'s\<close>
  and return its id, and the constant \<open>feconf.ALLOW_YAML_FILE_UPLOAD\<close>.
\<close>

record 's exp_services =
  create_from_yaml :: "string \<Rightarrow> json \<Rightarrow> json \<Rightarrow> json \<Rightarrow> 's \<Rightarrow> string \<times> 's"
  create_new :: "json \<Rightarrow> json \<Rightarrow> json \<Rightarrow> 's \<Rightarrow> string \<times> 's"
  ALLOW_YAML_FILE_UPLOAD :: bool

text \<open>
  The handler takes the user id, the payload, the request parameter \<open>yaml\<close> (the empty
  string when absent) and the datastore; it returns the rendered JSON or the exception
  raised, together with the datastore it leaves behind.
\<close>

definition NewExploration_post ::
  "'s exp_services \<Rightarrow> json \<Rightarrow> payload \<Rightarrow> string \<Rightarrow> 's \<Rightarrow> (py_error + json) \<times> 's" where
  "NewExploration_post svc user_id p yaml_content s =
     (let title_v = payload_get p ''title'';
          category_v = payload_get p ''category''
      in if \<not> truthy title_v then (Inl (InvalidInputException ''No title supplied.''), s)
         else if \<not> truthy category_v
         then (Inl (InvalidInputException ''No category chosen.''), s)
         else
           let (new_id, s') =
                 (if yaml_content \<noteq> [] \<and> ALLOW_YAML_FILE_UPLOAD svc
                  then create_from_yaml svc yaml_content user_id title_v category_v s
                  else create_new svc user_id title_v category_v s)
           in (Inr (PDict [(''explorationId'', PStr new_id)]), s'))"

subsection \<open>ExplorationHandler.put\<close>

text \<open>\<open>param_models.Parameter(name=item['name'], ...)\<close>, keyword arguments left to right.\<close>

definition make_parameter :: "json \<Rightarrow> py_error + parameter" where
  "make_parameter item =
     and_then (py_getitem item (PStr ''name'')) (\<lambda>n.
     and_then (py_getitem item (PStr ''obj_type'')) (\<lambda>t.
     and_then (py_getitem item (PStr ''description'')) (\<lambda>d.
     and_then (py_getitem item (PStr ''values'')) (\<lambda>v.
       Inr \<lparr>param_name = n, param_obj_type = t, param_description = d,
            param_values = v\<rparr>))))"

text \<open>
  Lines 155 to 163. \<open>add_editor\<close> is a method of the exploration declared outside the
  source; it is a parameter that maps the exploration object to the one it leaves.
\<close>

definition update_editors ::
  "(json \<Rightarrow> exploration \<Rightarrow> exploration) \<Rightarrow> json \<Rightarrow> json \<Rightarrow> exploration
     \<Rightarrow> py_error + exploration" where
  "update_editors add_editor user_id editors expl =
     (if truthy editors
      then (if editor_ids expl \<noteq> [] \<and> user_id = hd (editor_ids expl)
            then and_then (py_iter editors) (\<lambda>emails.
                   Inr (fold add_editor emails (expl\<lparr>editor_ids := []\<rparr>)))
            else Inl (UnauthorizedUserException
                        ''Only the exploration owner can add new collaborators.''))
      else Inr expl)"

text \<open>Lines 147 to 154: the assignments that cannot fail.\<close>

definition update_fields :: "payload \<Rightarrow> exploration \<Rightarrow> exploration" where
  "update_fields p expl =
     (let is_public_v = payload_get p ''is_public'';
          category_v = payload_get p ''category'';
          title_v = payload_get p ''title'';
          image_id_v = payload_get p ''image_id'';
          e1 = (if truthy is_public_v then expl\<lparr>is_public := True\<rparr> else expl);
          e2 = (if truthy category_v then e1\<lparr>category := category_v\<rparr> else e1);
          e3 = (if truthy title_v then e2\<lparr>title := title_v\<rparr> else e2)
      in if p ''image_id'' \<noteq> None
         then e3\<lparr>image_id := (if image_id_v = PStr ''null'' then PNone else image_id_v)\<rparr>
         else e3)"

text \<open>Lines 164 to 170.\<close>

definition update_parameters :: "json \<Rightarrow> exploration \<Rightarrow> py_error + exploration" where
  "update_parameters parameters_v expl =
     (if truthy parameters_v
      then and_then (py_iter parameters_v) (\<lambda>items.
           and_then (map_err make_parameter items) (\<lambda>ps.
             Inr (expl\<lparr>parameters := ps\<rparr>)))
      else Inr expl)"

text \<open>
  The handler: \<open>Inr e\<close> says that \<open>exploration.put()\<close> was reached with the exploration
  object in state \<open>e\<close>; \<open>Inl err\<close> says that \<open>err\<close> was raised before, so that nothing
  was persisted.
\<close>

definition ExplorationHandler_put ::
  "(json \<Rightarrow> exploration \<Rightarrow> exploration) \<Rightarrow> json \<Rightarrow> payload \<Rightarrow> exploration
     \<Rightarrow> py_error + exploration" where
  "ExplorationHandler_put add_editor user_id p expl =
     and_then (update_editors add_editor user_id (payload_get p ''editors'')
                 (update_fields p expl))
       (update_parameters (payload_get p ''parameters''))"

text \<open>
  A sequence of put requests on one exploration: each request works on the exploration
  as it was last persisted, and a request that raises persists nothing.
\<close>

fun run_puts ::
  "(json \<Rightarrow> exploration \<Rightarrow> exploration) \<Rightarrow> (json \<times> payload) list \<Rightarrow> exploration
     \<Rightarrow> exploration" where
  "run_puts add_editor [] expl = expl"
| "run_puts add_editor ((user_id, p) # reqs) expl =
     (case ExplorationHandler_put add_editor user_id p expl of
        Inl err \<Rightarrow> run_puts add_editor reqs expl
      | Inr expl' \<Rightarrow> run_puts add_editor reqs expl')"

subsection \<open>StateHandler.put\<close>

text \<open>
  What the handler uses from outside the source: the constant
  \<open>feconf.DEFAULT_RULE_NAME\<close>, \<open>utils.recursively_remove_key\<close> (which returns the
  cleaned value here, where the source cleans in place), the widget registry
  (\<open>Registry.get_widget_by_id\<close>, \<open>get_rule_by_name\<close>), the parameter types of
  \<open>rule_domain\<close> with their \<open>normalize\<close> and \<open>__name__\<close>, the formatting of a value by
  \<open>%s\<close>, the effect of \<open>exploration.rename_state\<close> on the state object, and
  \<open>exp_services.get_or_create_param\<close>.
\<close>

record ('w, 'r, 't) registry =
  DEFAULT_RULE_NAME :: string
  recursively_remove_key :: "json \<Rightarrow> string \<Rightarrow> json"
  get_widget_by_id :: "string \<Rightarrow> json \<Rightarrow> 'w"
  get_rule_by_name :: "'w \<Rightarrow> string \<Rightarrow> json \<Rightarrow> 'r"
  get_obj_type_for_param_name :: "'r \<Rightarrow> json \<Rightarrow> 't"
  normalize_obj :: "'t \<Rightarrow> json \<Rightarrow> json"
  type_name :: "'t \<Rightarrow> string"
  format_value :: "json \<Rightarrow> string"
  rename_state :: "exploration \<Rightarrow> string \<Rightarrow> json \<Rightarrow> state \<Rightarrow> state"
  get_or_create_param :: "string \<Rightarrow> json \<Rightarrow> parameter"

text \<open>
  Line 268, negated: the value is a string that contains both \<open>{{\<close> and \<open>}}\<close>.
\<close>

fun is_template :: "json \<Rightarrow> bool" where
  "is_template (PStr s) = (contains_str s ''{{'' \<and> contains_str s ''}}'')"
| "is_template v = False"

text \<open>Lines 265 to 277 for one parameter: the value to store, or the exception.\<close>

definition normalize_param ::
  "('w, 'r, 't) registry \<Rightarrow> 'r \<Rightarrow> json \<Rightarrow> json \<Rightarrow> py_error + json" where
  "normalize_param reg matched_rule pname v =
     (let param_type = get_obj_type_for_param_name reg matched_rule pname;
          normalized_param =
            (if \<not> is_template v then normalize_obj reg param_type v else v)
      in if normalized_param = PNone
         then Inl (InvalidInputException
                     (format_value reg v
                        @ '' has the wrong type. Please replace it with a ''
                        @ type_name reg param_type @ ''.''))
         else Inr normalized_param)"

text \<open>
  The loop of lines 263 to 279 over a dict of inputs: it visits the keys, reads
  \<open>inputs[param_name]\<close> and assigns the normalized value to the same key.
\<close>

fun normalize_dict_loop ::
  "('w, 'r, 't) registry \<Rightarrow> 'r \<Rightarrow> string list \<Rightarrow> (string \<times> json) list
     \<Rightarrow> py_error + (string \<times> json) list" where
  "normalize_dict_loop reg matched_rule [] kvs = Inr kvs"
| "normalize_dict_loop reg matched_rule (k # ks) kvs =
     and_then (py_getitem (PDict kvs) (PStr k)) (\<lambda>v.
     and_then (normalize_param reg matched_rule (PStr k) v) (\<lambda>normalized_param.
       normalize_dict_loop reg matched_rule ks (AList.update k normalized_param kvs)))"

text \<open>\<open>xs[key] = v\<close> on a list.\<close>

definition list_setitem :: "json list \<Rightarrow> json \<Rightarrow> json \<Rightarrow> py_error + json list" where
  "list_setitem xs k v =
     (case as_index k of
        None \<Rightarrow> Inl TypeError
      | Some i \<Rightarrow> and_then (py_index i (length xs)) (\<lambda>j. Inr (xs[j := v])))"

text \<open>
  The same loop over a list of inputs: the iterator yields the element at each position
  of the list as it is then, and that element is used as the index that is read and
  assigned. The length of the list never changes, so the positions are known upfront.
\<close>

fun normalize_list_loop ::
  "('w, 'r, 't) registry \<Rightarrow> 'r \<Rightarrow> nat list \<Rightarrow> json list \<Rightarrow> py_error + json list" where
  "normalize_list_loop reg matched_rule [] xs = Inr xs"
| "normalize_list_loop reg matched_rule (pos # rest) xs =
     (let pname = xs ! pos
      in and_then (py_getitem (PList xs) pname) (\<lambda>v.
         and_then (normalize_param reg matched_rule pname v) (\<lambda>normalized_param.
         and_then (list_setitem xs pname normalized_param) (\<lambda>xs'.
           normalize_list_loop reg matched_rule rest xs'))))"

text \<open>
  The loop for any value of \<open>inputs\<close>: None, a bool or an int is not iterable; a
  non-empty string fails at its first character, which is no valid string index.
\<close>

fun normalize_inputs ::
  "('w, 'r, 't) registry \<Rightarrow> 'r \<Rightarrow> json \<Rightarrow> py_error + json" where
  "normalize_inputs reg matched_rule (PDict kvs) =
     and_then (normalize_dict_loop reg matched_rule (map fst kvs) kvs) (\<lambda>kvs'. Inr (PDict kvs'))"
| "normalize_inputs reg matched_rule (PList xs) =
     and_then (normalize_list_loop reg matched_rule [0..<length xs] xs) (\<lambda>xs'. Inr (PList xs'))"
| "normalize_inputs reg matched_rule (PStr s) = (if s = [] then Inr (PStr s) else Inl TypeError)"
| "normalize_inputs reg matched_rule v = Inl TypeError"

definition invalid_ruleset :: py_error where
  "invalid_ruleset =
     ValueError ''Invalid ruleset: the last rule should be a default rule.''"

text \<open>
  Lines 247 to 281 for the rule at index \<open>rule_ind\<close> of a ruleset of length \<open>n\<close>: the
  rule spec that is appended, or the exception. The test of line 254 reads
  \<open>rule['name']\<close> only when the rule is the last one.
\<close>

definition process_rule ::
  "('w, 'r, 't) registry \<Rightarrow> 'w \<Rightarrow> nat \<Rightarrow> nat \<Rightarrow> json \<Rightarrow> py_error + rule_spec" where
  "process_rule reg generic_widget n rule_ind rule =
     and_then (py_get rule ''name'') (\<lambda>name_v.
     and_then (py_get rule ''inputs'') (\<lambda>inputs_v.
     and_then (py_get rule ''dest'') (\<lambda>dest_v.
     and_then (py_get rule ''feedback'') (\<lambda>feedback_v.
       let state_rule = \<lparr>rule_name = name_v, rule_inputs = inputs_v, rule_dest = dest_v,
                         rule_feedback = feedback_v\<rparr>
       in and_then (py_getitem rule (PStr ''description'')) (\<lambda>description.
            if description = PStr (DEFAULT_RULE_NAME reg)
            then and_then (if int rule_ind \<noteq> int n - 1 then Inr True
                           else and_then (py_getitem rule (PStr ''name''))
                                  (\<lambda>nm. Inr (nm \<noteq> PStr (DEFAULT_RULE_NAME reg))))
                   (\<lambda>bad. if bad then Inl invalid_ruleset else Inr state_rule)
            else
              let matched_rule =
                    get_rule_by_name reg generic_widget ''submit'' (rule_name state_rule)
              in and_then (normalize_inputs reg matched_rule (rule_inputs state_rule))
                   (\<lambda>inputs'. Inr (state_rule\<lparr>rule_inputs := inputs'\<rparr>)))))))"

text \<open>The loop of line 246 over the indices, appending to \<open>rule_specs\<close>.\<close>

fun process_rules ::
  "('w, 'r, 't) registry \<Rightarrow> 'w \<Rightarrow> json \<Rightarrow> nat \<Rightarrow> nat list \<Rightarrow> rule_spec list
     \<Rightarrow> py_error + rule_spec list" where
  "process_rules reg generic_widget ruleset n [] specs = Inr specs"
| "process_rules reg generic_widget ruleset n (rule_ind # rest) specs =
     and_then (py_getitem ruleset (PInt (int rule_ind))) (\<lambda>rule.
     and_then (process_rule reg generic_widget n rule_ind rule) (\<lambda>state_rule.
       process_rules reg generic_widget ruleset n rest (specs @ [state_rule])))"

definition process_ruleset ::
  "('w, 'r, 't) registry \<Rightarrow> 'w \<Rightarrow> json \<Rightarrow> py_error + rule_spec list" where
  "process_ruleset reg generic_widget ruleset =
     and_then (py_len ruleset) (\<lambda>n.
       process_rules reg generic_widget ruleset n [0..<n] [])"

text \<open>Lines 217 to 223: one entry of \<open>param_changes\<close>.\<close>

definition make_param_change ::
  "('w, 'r, 't) registry \<Rightarrow> exploration \<Rightarrow> json \<Rightarrow> py_error + parameter" where
  "make_param_change reg expl param_change =
     and_then (py_getitem param_change (PStr ''name'')) (\<lambda>n.
       let inst = get_or_create_param reg (exploration_id expl) n
       in and_then (py_getitem param_change (PStr ''values'')) (\<lambda>v.
            Inr (inst\<lparr>param_values := v\<rparr>)))"

text \<open>Lines 214 to 232: the updates before the ruleset.\<close>

definition put_prelude ::
  "('w, 'r, 't) registry \<Rightarrow> exploration \<Rightarrow> payload \<Rightarrow> state \<Rightarrow> py_error + state" where
  "put_prelude reg expl p st =
     (let st1 = (if p ''state_name'' \<noteq> None
                 then rename_state reg expl (state_id st) (payload_get p ''state_name'') st
                 else st)
      in and_then
           (if p ''param_changes'' \<noteq> None
            then and_then (py_iter (payload_get p ''param_changes'')) (\<lambda>items.
                 and_then (map_err (make_param_change reg expl) items) (\<lambda>pcs.
                   Inr (st1\<lparr>param_changes := pcs\<rparr>)))
            else Inr st1)
           (\<lambda>st2.
              let st3 = (if truthy (payload_get p ''interactive_widget'')
                         then st2\<lparr>widget :=
                                (widget st2)\<lparr>widget_id := payload_get p ''interactive_widget''\<rparr>\<rparr>
                         else st2);
                  st4 = (if payload_get p ''interactive_params'' \<noteq> PNone
                         then st3\<lparr>widget :=
                                (widget st3)\<lparr>params := payload_get p ''interactive_params''\<rparr>\<rparr>
                         else st3);
                  st5 = (if payload_get p ''sticky_interactive_widget'' \<noteq> PNone
                         then st4\<lparr>widget :=
                                (widget st4)\<lparr>sticky :=
                                  payload_get p ''sticky_interactive_widget''\<rparr>\<rparr>
                         else st4)
              in Inr st5))"

text \<open>Lines 234 to 281: the handlers of the widget are rebuilt from the ruleset.\<close>

definition put_rulesets ::
  "('w, 'r, 't) registry \<Rightarrow> json \<Rightarrow> state \<Rightarrow> py_error + state" where
  "put_rulesets reg interactive_rulesets st =
     (if truthy interactive_rulesets
      then and_then (py_getitem interactive_rulesets (PStr ''submit'')) (\<lambda>ruleset0.
             let ruleset = recursively_remove_key reg ruleset0 ''$$hashKey'';
                 generic_widget = get_widget_by_id reg ''interactive'' (widget_id (widget st))
             in and_then (process_ruleset reg generic_widget ruleset) (\<lambda>specs.
                  Inr (st\<lparr>widget :=
                         (widget st)\<lparr>handlers :=
                           [\<lparr>handler_name = ''submit'', rule_specs = specs\<rparr>]\<rparr>\<rparr>)))
      else Inr st)"

text \<open>Lines 283 to 287.\<close>

definition make_content :: "json \<Rightarrow> py_error + content_item" where
  "make_content item =
     and_then (py_getitem item (PStr ''type'')) (\<lambda>t.
     and_then (py_getitem item (PStr ''value'')) (\<lambda>v.
       Inr \<lparr>content_type = t, content_value = v\<rparr>))"

definition put_content :: "json \<Rightarrow> state \<Rightarrow> py_error + state" where
  "put_content content_v st =
     (if truthy content_v
      then and_then (py_iter content_v) (\<lambda>items.
           and_then (map_err make_content items) (\<lambda>cs. Inr (st\<lparr>content := cs\<rparr>)))
      else Inr st)"

text \<open>
  The outcome of a put that reaches \<open>state.put()\<close>: the state object that is saved, and
  the answers handed to \<open>resolve_answers_for_default_rule\<close> when the payload has the
  key \<open>resolved_answers\<close>.
\<close>

record put_result =
  saved_state :: state
  resolved :: "json option"

definition StateHandler_put ::
  "('w, 'r, 't) registry \<Rightarrow> exploration \<Rightarrow> payload \<Rightarrow> state \<Rightarrow> py_error + put_result" where
  "StateHandler_put reg expl p st =
     and_then (put_prelude reg expl p st) (\<lambda>st5.
     and_then (put_rulesets reg (payload_get p ''interactive_rulesets'') st5) (\<lambda>st6.
     and_then (put_content (payload_get p ''content'') st6) (\<lambda>st7.
       Inr \<lparr>saved_state = st7,
            resolved = (if p ''resolved_answers'' \<noteq> None
                        then Some (payload_get p ''resolved_answers'') else None)\<rparr>)))"

text \<open>
  The value the specification expects to be stored for the input \<open>k\<close> of a rule: the
  value itself when it is a template string, its normalization otherwise.
\<close>

definition stored_value :: "('w, 'r, 't) registry \<Rightarrow> 'r \<Rightarrow> string \<Rightarrow> json \<Rightarrow> json" where
  "stored_value reg matched_rule k v =
     (if is_template v then v
      else normalize_obj reg (get_obj_type_for_param_name reg matched_rule (PStr k)) v)"

text \<open>The rule spec that line 248 builds from a rule that is a dict.\<close>

definition rule_spec_of :: "(string \<times> json) list \<Rightarrow> rule_spec" where
  "rule_spec_of d =
     \<lparr>rule_name = dict_get d ''name'', rule_inputs = dict_get d ''inputs'',
      rule_dest = dict_get d ''dest'', rule_feedback = dict_get d ''feedback''\<rparr>"

section \<open>A sample datastore\<close>

text \<open>
  One exploration layout with five states, used to run the functions on concrete data:
  \<open>s1\<close> passes both thresholds (3 default answers, 4 visits without answer, 10
  entries), \<open>s2\<close> passes both with equal counts (5 and 5 of 20), \<open>s3\<close> passes none and
  \<open>s4\<close> was never entered although a default answer is logged for it. The default
  rule of \<open>s5\<close> leads to \<open>s1\<close>; the state passes both thresholds (5 and 3 of 10).
\<close>

definition sample_state :: "string \<Rightarrow> state" where
  "sample_state sid =
     \<lparr>state_id = sid, state_name = sid, param_changes = [],
      widget = \<lparr>widget_id = PStr ''TextInput'', params = PNone, sticky = PBool False,
                handlers = [\<lparr>handler_name = ''submit'',
                             rule_specs = [\<lparr>rule_name = PStr ''Default'',
                                            rule_inputs = PDict [],
                                            rule_dest =
                                              PStr (if sid = ''s5'' then ''s1'' else sid),
                                            rule_feedback = PList []\<rparr>]\<rparr>]\<rparr>,
      content = []\<rparr>"

definition sample_exploration :: "string \<Rightarrow> exploration" where
  "sample_exploration eid =
     \<lparr>exploration_id = eid, title = PStr ''Intro'', category = PStr ''Maths'',
      is_public = False, image_id = PNone, editor_ids = [PStr ''owner''],
      parameters = [], state_ids = [''s1'', ''s2'', ''s3'', ''s4'', ''s5''],
      init_state_id = ''s1''\<rparr>"

definition sample_counter :: "string \<Rightarrow> state_counter" where
  "sample_counter sid =
     (if sid = ''s1'' then
        \<lparr>first_entry_count = 7, total_entry_count = 10, no_answer_count = 4\<rparr>
      else if sid = ''s2'' then
        \<lparr>first_entry_count = 12, total_entry_count = 20, no_answer_count = 5\<rparr>
      else if sid = ''s3'' then
        \<lparr>first_entry_count = 9, total_entry_count = 10, no_answer_count = 1\<rparr>
      else if sid = ''s5'' then
        \<lparr>first_entry_count = 8, total_entry_count = 10, no_answer_count = 3\<rparr>
      else if sid = ''END'' then
        \<lparr>first_entry_count = 6, total_entry_count = 6, no_answer_count = 0\<rparr>
      else
        \<lparr>first_entry_count = 0, total_entry_count = 0, no_answer_count = 0\<rparr>)"

definition sample_log :: "string \<Rightarrow> answer_log" where
  "sample_log sid =
     \<lparr>total_answer_count = (if sid = ''s1'' then 3 else if sid = ''s2'' \<or> sid = ''s5'' then 5 else 1),
      get_top_answers = (\<lambda>n. take n [(PStr ''x'', 2), (PStr ''y'', 1)])\<rparr>"

definition sample_ds :: datastore where
  "sample_ds =
     \<lparr>Exploration_get = sample_exploration,
      StateCounter_get = (\<lambda>eid sid. sample_counter sid),
      StateRuleAnswerLog_get = (\<lambda>eid sid rule. sample_log sid),
      get_state_by_id = (\<lambda>expl sid. sample_state sid),
      default_rule_spec = (\<lambda>h. last (rule_specs h)),
      rule_str = (\<lambda>r. case rule_name r of PStr s \<Rightarrow> s | _ \<Rightarrow> ''''),
      DEFAULT_RULESPEC_STR = ''Default'',
      END_DEST = ''END''\<rparr>"

text \<open>
  The same layout with large counters: every state was entered \<open>5 * 2 ^ 51 - 1\<close> times,
  with \<open>2 ^ 51\<close> default answers and \<open>2 ^ 51\<close> visits without answer. Both counts
  exceed a fifth of the entries, but the product \<open>0.2 * total_entry_count\<close> rounds up
  to \<open>2 ^ 51\<close> in double precision.
\<close>

definition large_ds :: datastore where
  "large_ds =
     sample_ds
       \<lparr>StateCounter_get :=
          (\<lambda>eid sid. \<lparr>first_entry_count = 1, total_entry_count = 11258999068426239,
                       no_answer_count = 2251799813685248\<rparr>),
        StateRuleAnswerLog_get :=
          (\<lambda>eid sid rule. \<lparr>total_answer_count = 2251799813685248,
                            get_top_answers = (\<lambda>n. [])\<rparr>)\<rparr>"

text \<open>The sample datastore with states that have no answer handler.\<close>

definition bare_ds :: datastore where
  "bare_ds =
     sample_ds
       \<lparr>get_state_by_id :=
          (\<lambda>expl sid. (sample_state sid)
                         \<lparr>widget := (widget (sample_state sid))\<lparr>handlers := []\<rparr>\<rparr>)\<rparr>"

section \<open>Sample services for the handlers\<close>

text \<open>
  A datastore that only counts the explorations created, with the two creation
  functions returning fixed ids, and an \<open>add_editor\<close> that appends to \<open>editor_ids\<close>.
\<close>

definition sample_services :: "nat exp_services" where
  "sample_services =
     \<lparr>create_from_yaml = (\<lambda>yaml_content user_id t c n. (''from_yaml'', Suc n)),
      create_new = (\<lambda>user_id t c n. (''new'', Suc n)),
      ALLOW_YAML_FILE_UPLOAD = True\<rparr>"

definition sample_add_editor :: "json \<Rightarrow> exploration \<Rightarrow> exploration" where
  "sample_add_editor email expl = expl\<lparr>editor_ids := editor_ids expl @ [email]\<rparr>"

text \<open>
  A registry with one widget and one rule whose parameters are all of a type \<open>Int\<close>,
  which normalizes ints and bools to ints and nothing else.
\<close>

fun remove_key :: "string \<Rightarrow> json \<Rightarrow> json" where
  "remove_key k (PList xs) = PList (map (remove_key k) xs)"
| "remove_key k (PDict kvs) =
     PDict (map (\<lambda>kv. (fst kv, remove_key k (snd kv))) (filter (\<lambda>kv. fst kv \<noteq> k) kvs))"
| "remove_key k v = v"

definition sample_registry :: "(string, string, string) registry" where
  "sample_registry =
     \<lparr>DEFAULT_RULE_NAME = ''Default'',
      recursively_remove_key = (\<lambda>v k. remove_key k v),
      get_widget_by_id = (\<lambda>kind wid. ''widget''),
      get_rule_by_name = (\<lambda>w handler n. ''rule''),
      get_obj_type_for_param_name = (\<lambda>r pname. ''Int''),
      normalize_obj =
        (\<lambda>t v. case v of PInt i \<Rightarrow> PInt i
                | PBool b \<Rightarrow> PInt (if b then 1 else 0)
                | _ \<Rightarrow> PNone),
      type_name = (\<lambda>t. t),
      format_value = (\<lambda>v. case v of PStr s \<Rightarrow> s | _ \<Rightarrow> ''?''),
      rename_state = (\<lambda>expl sid n st. st),
      get_or_create_param =
        (\<lambda>eid n. \<lparr>param_name = n, param_obj_type = PStr ''UnicodeString'',
                   param_description = PStr '''', param_values = PList []\<rparr>)\<rparr>"

text \<open>
  Rules as the editor sends them: a well-formed rule with an int and a template input, a
  rule whose input is no int, a default rule, a rule described as default that lacks a
  name, and one described as default under another name.
\<close>

definition ok_fields :: "(string \<times> json) list" where
  "ok_fields =
     [(''name'', PStr ''Equals''),
      (''inputs'', PDict [(''x'', PInt 3), (''y'', PStr ''{{answer}}'')]),
      (''dest'', PStr ''s2''), (''feedback'', PList []),
      (''description'', PStr ''is equal to {{x}}'')]"

definition bad_input_fields :: "(string \<times> json) list" where
  "bad_input_fields =
     [(''name'', PStr ''Equals''), (''inputs'', PDict [(''x'', PStr ''abc'')]),
      (''dest'', PStr ''s2''), (''feedback'', PList []),
      (''description'', PStr ''is equal to {{x}}'')]"

definition default_fields :: "(string \<times> json) list" where
  "default_fields =
     [(''name'', PStr ''Default''), (''inputs'', PDict []), (''dest'', PStr ''s1''),
      (''feedback'', PList []), (''description'', PStr ''Default'')]"

definition unnamed_fields :: "(string \<times> json) list" where
  "unnamed_fields = [(''dest'', PStr ''s1''), (''description'', PStr ''Default'')]"

definition misnamed_fields :: "(string \<times> json) list" where
  "misnamed_fields =
     [(''name'', PStr ''Other''), (''dest'', PStr ''s1''),
      (''description'', PStr ''Default'')]"

definition ruleset_payload :: "json list \<Rightarrow> payload" where
  "ruleset_payload rules = [''interactive_rulesets'' \<mapsto> PDict [(''submit'', PList rules)]]"

section \<open>The threshold in double precision\<close>

text \<open>
  Rounding moves a quotient by at most one half and never below its integer part.
\<close>

lemma round_half_even_zero: "round_half_even m 0 = m"
  by (simp add: round_half_even_def)

lemma round_half_even_lower: "m div 2 ^ s \<le> round_half_even m s"
  by (simp add: round_half_even_def Let_def)

lemma round_half_even_upper: "2 * (round_half_even m s * 2 ^ s) \<le> 2 * m + 2 ^ s"
proof -
  define q where "q = m div (2::int) ^ s"
  define r where "r = m mod (2::int) ^ s"
  have m: "m = q * 2 ^ s + r"
    unfolding q_def r_def by (rule div_mult_mod_eq [symmetric])
  have r0: "0 \<le> r" by (simp add: r_def)
  show ?thesis
  proof (cases "2 * r < 2 ^ s")
    case True
    then have "round_half_even m s = q"
      by (simp add: round_half_even_def Let_def q_def r_def)
    with r0 m show ?thesis by (simp add: algebra_simps)
  next
    case False
    then have "round_half_even m s \<le> q + 1"
      by (simp add: round_half_even_def Let_def q_def r_def)
    then have "round_half_even m s * 2 ^ s \<le> (q + 1) * 2 ^ s"
      by (intro mult_right_mono) simp_all
    with False m show ?thesis by (simp add: algebra_simps)
  qed
qed

lemma bitlen_le: "0 < m \<Longrightarrow> m < 2 ^ k \<Longrightarrow> bitlen m \<le> int k"
proof -
  assume m: "0 < m" "m < 2 ^ k"
  from bitlen_bounds [OF m(1)] have "(2::int) ^ nat (bitlen m - 1) \<le> m" by simp
  with m(2) have "(2::int) ^ nat (bitlen m - 1) < 2 ^ k" by linarith
  then have "nat (bitlen m - 1) < k" by simp
  then show ?thesis by linarith
qed

lemma round_double_exact: "\<bar>m\<bar> < 2 ^ 53 \<Longrightarrow> round_double m e = \<lparr>mantissa = m, exponent = e\<rparr>"
proof (cases "m = 0")
  case True
  then show ?thesis by (simp add: round_double_def round_half_even_zero)
next
  case False
  assume "\<bar>m\<bar> < 2 ^ 53"
  with False have "bitlen \<bar>m\<bar> \<le> int 53"
    by (intro bitlen_le) simp_all
  then have "nat (bitlen \<bar>m\<bar> - 53) = 0" by simp
  then show ?thesis
    by (simp add: round_double_def round_half_even_zero mult_sgn_abs)
qed

lemma py_float_exact: "\<bar>n\<bar> < 2 ^ 53 \<Longrightarrow> py_float n = Inr \<lparr>mantissa = n, exponent = 0\<rparr>"
proof -
  assume n: "\<bar>n\<bar> < 2 ^ 53"
  have "(2::int) ^ 53 \<le> 2 ^ 1024" by (intro power_increasing) simp_all
  with n have "\<not> 2 ^ 1024 \<le> \<bar>n\<bar>" by linarith
  with n show ?thesis
    by (simp add: py_float_def round_double_exact del: power_numeral)
qed

text \<open>
  Ints of at most 53 bits convert exactly, and for a positive total entry count below
  \<open>2 ^ 52\<close> the test \<open>c > 0.2 * n\<close> of the source agrees with the exact comparison
  \<open>n < 5 * c\<close> for every int \<open>c\<close>.
\<close>

lemma fifth_of_exact:
  assumes n: "0 < n" "n < 2 ^ 52"
  shows "\<exists>t. fifth_of n = Inr t \<and> (\<forall>c. int_gt_double c t = (n < 5 * c))"
proof -
  define m where "m = 3602879701896397 * n"
  define s where "s = nat (bitlen \<bar>m\<bar> - 53)"
  define q where "q = round_half_even m s"
  define K :: int where "K = 2 ^ 54"
  define P :: int where "P = 2 ^ s"
  define Q :: int where "Q = 2 ^ (54 - s)"
  have m_pos: "0 < m" using n by (simp add: m_def)
  have five_m: "5 * m = n * K + n" by (simp add: m_def K_def)
  have "m < 2 ^ 104" using n by (simp add: m_def)
  with m_pos have "bitlen m \<le> int 104" by (rule bitlen_le)
  with m_pos have s_le: "s \<le> 51" by (simp add: s_def)
  then have PQ: "P * Q = K"
    by (simp add: P_def Q_def K_def flip: power_add)
  have cQP: "c * Q * P = c * K" for c
  proof -
    have "c * Q * P = c * (P * Q)" by (simp add: ac_simps)
    then show ?thesis by (simp only: PQ)
  qed
  have P_pos: "0 < P" by (simp add: P_def)
  have "P \<le> 2 ^ 51" unfolding P_def using s_le by (intro power_increasing) simp_all
  then have P_le: "P \<le> 2251799813685248" by simp
  have K_val: "K = 18014398509481984" by (simp add: K_def)
  from n have "\<bar>n\<bar> < 2 ^ 53" by simp
  then have "fifth_of n = Inr (round_double m (- 54))"
    by (simp add: fifth_of_def py_float_exact float_mul_def point_two_def m_def and_then_def)
  also have "round_double m (- 54) = \<lparr>mantissa = q, exponent = - 54 + int s\<rparr>"
    using m_pos by (simp add: round_double_def s_def q_def Let_def)
  finally have t: "fifth_of n = Inr \<lparr>mantissa = q, exponent = - 54 + int s\<rparr>" .
  have gt: "int_gt_double c \<lparr>mantissa = q, exponent = - 54 + int s\<rparr> = (q < c * Q)" for c
  proof -
    from s_le have "nat (54 - int s) = 54 - s" by simp
    with s_le show ?thesis by (simp add: int_gt_double_def Q_def)
  qed
  have up: "2 * (q * P) \<le> 2 * m + P"
    unfolding q_def P_def by (rule round_half_even_upper)
  have low: "m div P \<le> q"
    unfolding q_def P_def by (rule round_half_even_lower)
  have "(q < c * Q) = (n < 5 * c)" for c
  proof
    assume a: "n < 5 * c"
    show "q < c * Q"
    proof (rule ccontr)
      assume "\<not> q < c * Q"
      then have "c * Q \<le> q" by simp
      then have "c * Q * P \<le> q * P" using P_pos by (intro mult_right_mono) simp_all
      then have 1: "c * K \<le> q * P" by (simp only: cQP)
      from a have "n + 1 \<le> 5 * c" by simp
      then have "(n + 1) * K \<le> 5 * c * K" by (intro mult_right_mono) (simp_all add: K_def)
      then have 2: "n * K + K \<le> 5 * (c * K)" by (simp add: algebra_simps)
      have "2 * n + 5 * P < 2 * K" using n P_le K_val by simp
      with 1 2 up five_m show False by linarith
    qed
  next
    assume a: "q < c * Q"
    show "n < 5 * c"
    proof (rule ccontr)
      assume "\<not> n < 5 * c"
      then have "5 * c \<le> n" by simp
      then have "5 * c * K \<le> n * K" by (intro mult_right_mono) (simp_all add: K_def)
      with five_m n have "c * K \<le> m" by (simp add: algebra_simps)
      then have "c * Q * P \<le> m" by (simp only: cQP)
      then have "(c * Q * P) div P \<le> m div P" by (rule zdiv_mono1) (rule P_pos)
      with P_pos have "c * Q \<le> m div P" by simp
      with low a show False by linarith
    qed
  qed
  with t gt show ?thesis by simp
qed

text \<open>The conversion raises no OverflowError below \<open>2 ^ 1023\<close>.\<close>

lemma py_float_returns:
  assumes "\<bar>n\<bar> < 2 ^ 1023"
  shows "\<exists>d. py_float n = Inr d"
proof (cases "n = 0")
  case True
  have "(0::int) < 2 ^ 1024" by (rule zero_less_power) simp
  then have "\<not> (2::int) ^ 1024 \<le> 0" by linarith
  with True show ?thesis
    by (simp add: py_float_def round_double_def round_half_even_zero Let_def del: power_numeral)
next
  case False
  define a where "a = \<bar>n\<bar>"
  define s where "s = nat (bitlen a - 53)"
  define q where "q = round_half_even a s"
  define K :: int where "K = 2 ^ 1023"
  have a_pos: "0 < a" using False by (simp add: a_def)
  have K2: "(2::int) ^ 1024 = 2 * K"
  proof -
    have "(2::int) ^ Suc 1023 = 2 * 2 ^ 1023" by (rule power_Suc)
    then show ?thesis by (simp add: K_def del: power_numeral power_Suc)
  qed
  from bitlen_bounds [OF a_pos] have "(2::int) ^ nat (bitlen a - 1) \<le> a" by simp
  moreover have "(2::int) ^ s \<le> 2 ^ nat (bitlen a - 1)"
    unfolding s_def by (intro power_increasing) simp_all
  ultimately have s_le: "(2::int) ^ s \<le> a" by linarith
  have up: "2 * (q * 2 ^ s) \<le> 2 * a + 2 ^ s"
    unfolding q_def by (rule round_half_even_upper)
  have "0 \<le> a div 2 ^ s" using a_pos by (simp add: pos_imp_zdiv_nonneg_iff)
  with round_half_even_lower [of a s] have q0: "0 \<le> q" by (simp add: q_def)
  have "\<bar>sgn n * q\<bar> = q" using False q0 by (simp add: abs_mult abs_sgn_eq)
  moreover from up s_le assms have "q * 2 ^ s < 2 * K" by (simp add: a_def K_def del: power_numeral)
  ultimately have "\<not> 2 ^ 1024 \<le> \<bar>sgn n * q\<bar> * 2 ^ s" by (simp add: K2 del: power_numeral)
  moreover have "round_double n 0 = \<lparr>mantissa = sgn n * q, exponent = int s\<rparr>"
    by (simp add: round_double_def Let_def a_def s_def q_def)
  ultimately show ?thesis
    by (simp add: py_float_def Let_def del: power_numeral)
qed

lemma fifth_of_returns: "\<bar>n\<bar> < 2 ^ 1023 \<Longrightarrow> \<exists>t. fifth_of n = Inr t"
  using py_float_returns [of n] by (auto simp: fifth_of_def and_then_def simp del: power_numeral)

section \<open>Properties of the ranking\<close>

lemma sorted_reverse_set: "set (sorted_reverse k xs) = set xs"
  by (simp add: sorted_reverse_def)

lemma sorted_reverse_descending:
  "sorted_wrt (\<lambda>a b. k b \<le> k a) (sorted_reverse k xs)"
proof -
  have "sorted (map k (sort_key k (rev xs)))"
    by simp
  then have "sorted_wrt (\<lambda>a b. k a \<le> k b) (sort_key k (rev xs))"
    by (simp add: sorted_wrt_map)
  then show ?thesis
    by (simp add: sorted_reverse_def sorted_wrt_rev)
qed

section \<open>The loop over the states\<close>

text \<open>
  In the range where the threshold is exact, the flags are those of the exact test.
\<close>

lemma eligible_flags_exact:
  assumes "0 < entries" and "entries < 2 ^ 52"
  shows "eligible_flags ds st default_count no_answer_submitted_count entries =
           (case (if spec_exceeds_fifth default_count entries
                  then (case handlers (widget st) of
                          [] \<Rightarrow> Inl IndexError
                        | h # _ \<Rightarrow>
                            Inr (rule_dest (default_rule_spec ds h) = PStr (state_id st)))
                  else Inr False) of
              Inl err \<Rightarrow> Inl err
            | Inr is_default \<Rightarrow>
                Inr ((if is_default
                      then [\<lparr>flag_rank = default_count,
                             flag_improve_type = IMPROVE_TYPE_DEFAULT\<rparr>]
                      else [])
                     @ (if spec_exceeds_fifth no_answer_submitted_count entries
                        then [\<lparr>flag_rank = no_answer_submitted_count,
                               flag_improve_type = IMPROVE_TYPE_INCOMPLETE\<rparr>]
                        else [])))"
proof -
  from fifth_of_exact [OF assms] obtain t where
    t: "fifth_of entries = Inr t" "\<And>c. int_gt_double c t = (entries < 5 * c)"
    by blast
  show ?thesis
    by (simp add: eligible_flags_def t and_then_def spec_exceeds_fifth_def
          split: list.splits)
qed

lemma eligible_flags_returns:
  assumes "handlers (widget st) \<noteq> []" and "\<bar>t\<bar> < 2 ^ 1023"
  shows "\<exists>flags. eligible_flags ds st d n t = Inr flags"
proof -
  from fifth_of_returns [OF assms(2)] obtain th where "fifth_of t = Inr th"
    by blast
  with assms(1) show ?thesis
    by (cases "handlers (widget st)") (simp_all add: eligible_flags_def and_then_def)
qed

lemma rank_state_returns:
  assumes h: "handlers (widget (get_state_by_id ds expl sid)) \<noteq> []"
    and b: "\<bar>total_entry_count (StateCounter_get ds eid sid)\<bar> < 2 ^ 1023"
  shows "\<exists>r. rank_state ds eid expl sid = Inr r"
proof (cases "total_entry_count (StateCounter_get ds eid sid) = 0")
  case True
  then show ?thesis by (simp add: rank_state_def)
next
  case False
  from eligible_flags_returns [OF h b] obtain flags where
    "eligible_flags ds (get_state_by_id ds expl sid)
       (total_answer_count (StateRuleAnswerLog_get ds (exploration_id expl) sid
          (DEFAULT_RULESPEC_STR ds)))
       (no_answer_count (StateCounter_get ds eid sid))
       (total_entry_count (StateCounter_get ds eid sid)) = Inr flags"
    by blast
  with False show ?thesis by (simp add: rank_state_def Let_def)
qed

lemma rank_states_returns:
  "\<forall>sid \<in> set sids. handlers (widget (get_state_by_id ds expl sid)) \<noteq> [] \<and>
      \<bar>total_entry_count (StateCounter_get ds eid sid)\<bar> < 2 ^ 1023 \<Longrightarrow>
   \<exists>r. rank_states ds eid expl sids ranked = Inr r"
proof (induction sids arbitrary: ranked)
  case Nil
  then show ?case by simp
next
  case (Cons sid sids)
  then obtain r where r: "rank_state ds eid expl sid = Inr r"
    using rank_state_returns [of ds expl sid eid] by auto
  from Cons show ?case
    by (cases r) (simp_all add: r)
qed

lemma rank_explorations_returns:
  "handlers_present ds eids \<Longrightarrow> entries_convertible ds eids \<Longrightarrow>
   \<exists>r. rank_explorations ds eids ranked = Inr r"
proof (induction eids arbitrary: ranked)
  case Nil
  then show ?case by simp
next
  case (Cons eid eids)
  then have "\<forall>sid \<in> set (state_ids (Exploration_get ds eid)).
      handlers (widget (get_state_by_id ds (Exploration_get ds eid) sid)) \<noteq> [] \<and>
      \<bar>total_entry_count (StateCounter_get ds eid sid)\<bar> < 2 ^ 1023"
    by (simp add: handlers_present_def entries_convertible_def)
  from rank_states_returns [OF this] obtain r where
    r: "rank_states ds eid (Exploration_get ds eid) (state_ids (Exploration_get ds eid)) ranked
          = Inr r"
    by blast
  from Cons.prems have "handlers_present ds eids" "entries_convertible ds eids"
    by (simp_all add: handlers_present_def entries_convertible_def)
  from Cons.IH [OF this] show ?case
    by (simp add: r)
qed

text \<open>
  The list that the two loops build: the entry of every state that was entered, in the
  order of the exploration ids and of the state ids of each exploration.
\<close>

lemma rank_states_entries:
  "rank_states ds eid expl sids acc = Inr res \<Longrightarrow>
   res = acc @ concat (map (\<lambda>sid. case rank_state ds eid expl sid of
                                   Inr (Some e) \<Rightarrow> [e] | _ \<Rightarrow> []) sids)"
proof (induction sids arbitrary: acc)
  case Nil
  then show ?case by simp
next
  case (Cons sid sids)
  show ?case
  proof (cases "rank_state ds eid expl sid")
    case (Inl err)
    with Cons.prems show ?thesis by simp
  next
    case (Inr res1)
    show ?thesis
    proof (cases res1)
      case None
      with Inr Cons.prems have "rank_states ds eid expl sids acc = Inr res" by simp
      from Cons.IH [OF this] Inr None show ?thesis by simp
    next
      case (Some r1)
      with Inr Cons.prems have "rank_states ds eid expl sids (acc @ [r1]) = Inr res" by simp
      from Cons.IH [OF this] Inr Some show ?thesis by simp
    qed
  qed
qed

lemma rank_explorations_entries:
  "rank_explorations ds eids acc = Inr res \<Longrightarrow>
   res = acc @ concat (map (\<lambda>eid.
                 concat (map (\<lambda>sid. case rank_state ds eid (Exploration_get ds eid) sid of
                                       Inr (Some e) \<Rightarrow> [e] | _ \<Rightarrow> [])
                           (state_ids (Exploration_get ds eid)))) eids)"
proof (induction eids arbitrary: acc)
  case Nil
  then show ?case by simp
next
  case (Cons eid eids)
  from Cons.prems obtain mid where
    mid: "rank_states ds eid (Exploration_get ds eid) (state_ids (Exploration_get ds eid)) acc
            = Inr mid"
    and rest: "rank_explorations ds eids mid = Inr res"
    by (auto split: sum.splits)
  from Cons.IH [OF rest] rank_states_entries [OF mid] show ?case by simp
qed

lemma sorted_reverse_mset: "mset (sorted_reverse k xs) = mset xs"
  by (simp add: sorted_reverse_def)

lemma sorted_wrt_take_drop:
  "sorted_wrt P xs \<Longrightarrow> \<forall>t \<in> set (take n xs). \<forall>s \<in> set (drop n xs). P t s"
proof -
  assume "sorted_wrt P xs"
  then have "sorted_wrt P (take n xs @ drop n xs)" by simp
  then show ?thesis unfolding sorted_wrt_append by blast
qed

text \<open>
  Claim C1. Whenever \<open>get_top_improvable_states\<close> returns a list, that list and the
  entries left out make up, as multisets, the entries of nonzero rank among those that
  the two loops build for the states entered; no entry left out has a higher rank than
  a returned one, and entries are left out only when \<open>N\<close> are returned. So the list
  holds the \<open>N\<close> highest-ranked entries, or all of them if they are fewer; it has at most
  \<open>N\<close> entries, each of nonzero rank, in non-increasing order of rank. The function
  does return for every list of ids and every \<open>N\<close> as long as each state read has an
  answer handler and each total entry count read is in the range of a double (the
  exceptions the function itself can raise are the IndexError of \<open>handlers[0]\<close> and
  the OverflowError of \<open>0.2 * total_entry_count\<close>).
\<close>

theorem get_top_improvable_states_top_N:
  "(\<forall>r. get_top_improvable_states ds exploration_ids N = Inr r \<longrightarrow>
      (\<exists>ranked rest.
         rank_explorations ds exploration_ids [] = Inr ranked \<and>
         ranked =
           concat (map (\<lambda>eid.
             concat (map (\<lambda>sid. case rank_state ds eid (Exploration_get ds eid) sid of
                                   Inr (Some e) \<Rightarrow> [e] | _ \<Rightarrow> [])
                       (state_ids (Exploration_get ds eid)))) exploration_ids) \<and>
         mset (r @ rest) = mset (filter (\<lambda>s. r_rank s \<noteq> 0) ranked) \<and>
         (\<forall>t \<in> set r. \<forall>s \<in> set rest. r_rank s \<le> r_rank t) \<and>
         length r = min N (length (filter (\<lambda>s. r_rank s \<noteq> 0) ranked))) \<and>
      length r \<le> N \<and> (\<forall>s \<in> set r. r_rank s \<noteq> 0) \<and>
      sorted_wrt (\<lambda>a b. r_rank b \<le> r_rank a) r) \<and>
   (handlers_present ds exploration_ids \<and> entries_convertible ds exploration_ids \<longrightarrow>
      (\<exists>r. get_top_improvable_states ds exploration_ids N = Inr r))"
proof (rule conjI; intro allI impI)
  fix r assume "get_top_improvable_states ds exploration_ids N = Inr r"
  then obtain ranked where
    ranked: "rank_explorations ds exploration_ids [] = Inr ranked"
    and r: "r = take N (sorted_reverse r_rank (filter (\<lambda>s. r_rank s \<noteq> 0) ranked))"
    by (auto simp: get_top_improvable_states_def split: sum.splits)
  define sorted_states where
    "sorted_states = sorted_reverse r_rank (filter (\<lambda>s. r_rank s \<noteq> 0) ranked)"
  define rest where "rest = drop N sorted_states"
  have r': "r = take N sorted_states"
    by (simp add: r sorted_states_def)
  have desc: "sorted_wrt (\<lambda>a b. r_rank b \<le> r_rank a) sorted_states"
    unfolding sorted_states_def by (rule sorted_reverse_descending)
  have 1: "ranked =
           concat (map (\<lambda>eid.
             concat (map (\<lambda>sid. case rank_state ds eid (Exploration_get ds eid) sid of
                                   Inr (Some e) \<Rightarrow> [e] | _ \<Rightarrow> [])
                       (state_ids (Exploration_get ds eid)))) exploration_ids)"
    using rank_explorations_entries [OF ranked] by simp
  have "mset (r @ rest) = mset sorted_states"
    by (simp only: r' rest_def append_take_drop_id)
  then have 2: "mset (r @ rest) = mset (filter (\<lambda>s. r_rank s \<noteq> 0) ranked)"
    by (simp add: sorted_states_def sorted_reverse_mset)
  have 3: "\<forall>t \<in> set r. \<forall>s \<in> set rest. r_rank s \<le> r_rank t"
    unfolding r' rest_def by (rule sorted_wrt_take_drop [OF desc])
  have "length sorted_states = length (filter (\<lambda>s. r_rank s \<noteq> 0) ranked)"
    by (simp add: sorted_states_def sorted_reverse_def)
  then have 4: "length r = min N (length (filter (\<lambda>s. r_rank s \<noteq> 0) ranked))"
    by (simp add: r' min.commute)
  have 5: "length r \<le> N" by (simp add: r')
  have 6: "\<forall>s \<in> set r. r_rank s \<noteq> 0"
  proof
    fix s assume "s \<in> set r"
    then have "s \<in> set sorted_states"
      unfolding r' by (rule in_set_takeD)
    then show "r_rank s \<noteq> 0" by (simp add: sorted_states_def sorted_reverse_set)
  qed
  have 7: "sorted_wrt (\<lambda>a b. r_rank b \<le> r_rank a) r"
    unfolding r' by (intro sorted_wrt_take desc)
  from ranked 1 2 3 4 5 6 7 show
    "(\<exists>ranked rest.
         rank_explorations ds exploration_ids [] = Inr ranked \<and>
         ranked =
           concat (map (\<lambda>eid.
             concat (map (\<lambda>sid. case rank_state ds eid (Exploration_get ds eid) sid of
                                   Inr (Some e) \<Rightarrow> [e] | _ \<Rightarrow> [])
                       (state_ids (Exploration_get ds eid)))) exploration_ids) \<and>
         mset (r @ rest) = mset (filter (\<lambda>s. r_rank s \<noteq> 0) ranked) \<and>
         (\<forall>t \<in> set r. \<forall>s \<in> set rest. r_rank s \<le> r_rank t) \<and>
         length r = min N (length (filter (\<lambda>s. r_rank s \<noteq> 0) ranked))) \<and>
      length r \<le> N \<and> (\<forall>s \<in> set r. r_rank s \<noteq> 0) \<and>
      sorted_wrt (\<lambda>a b. r_rank b \<le> r_rank a) r"
    by blast
next
  assume "handlers_present ds exploration_ids \<and> entries_convertible ds exploration_ids"
  then have "\<exists>r. rank_explorations ds exploration_ids [] = Inr r"
    by (intro rank_explorations_returns) simp_all
  then show "\<exists>r. get_top_improvable_states ds exploration_ids N = Inr r"
    by (auto simp: get_top_improvable_states_def)
qed

theorem get_top_improvable_states_top_N_witness:
  "handlers_present sample_ds [''e1''] \<and> entries_convertible sample_ds [''e1''] \<and>
   (\<exists>r ranked rest.
      get_top_improvable_states sample_ds [''e1''] 1 = Inr r \<and>
      rank_explorations sample_ds [''e1''] [] = Inr ranked \<and>
      map r_state_id ranked = [''s1'', ''s2'', ''s3'', ''s5''] \<and>
      map r_rank ranked = [4, 5, 0, 3] \<and>
      map r_state_id r = [''s2''] \<and> map r_rank r = [5] \<and>
      mset (r @ rest) = mset (filter (\<lambda>s. r_rank s \<noteq> 0) ranked) \<and>
      (\<forall>t \<in> set r. \<forall>s \<in> set rest. r_rank s \<le> r_rank t) \<and>
      length r = min 1 (length (filter (\<lambda>s. r_rank s \<noteq> 0) ranked)) \<and>
      length r \<le> 1 \<and> (\<forall>s \<in> set r. r_rank s \<noteq> 0) \<and>
      sorted_wrt (\<lambda>a b. r_rank b \<le> r_rank a) r)"
proof -
  have h: "handlers_present sample_ds [''e1'']" "entries_convertible sample_ds [''e1'']"
    by code_simp+
  have top: "map r_state_id (projr (get_top_improvable_states sample_ds [''e1''] 1)) = [''s2'']"
    "map r_rank (projr (get_top_improvable_states sample_ds [''e1''] 1)) = [5]"
    by code_simp+
  have all: "map r_state_id (projr (rank_explorations sample_ds [''e1''] []))
               = [''s1'', ''s2'', ''s3'', ''s5'']"
    "map r_rank (projr (rank_explorations sample_ds [''e1''] [])) = [4, 5, 0, 3]"
    by code_simp+
  note inst = get_top_improvable_states_top_N [of sample_ds "[''e1'']" 1]
  from inst h obtain r where r: "get_top_improvable_states sample_ds [''e1''] 1 = Inr r"
    by blast
  with inst obtain ranked rest where
    p: "rank_explorations sample_ds [''e1''] [] = Inr ranked"
       "mset (r @ rest) = mset (filter (\<lambda>s. r_rank s \<noteq> 0) ranked)"
       "\<forall>t \<in> set r. \<forall>s \<in> set rest. r_rank s \<le> r_rank t"
       "length r = min 1 (length (filter (\<lambda>s. r_rank s \<noteq> 0) ranked))"
       "length r \<le> 1" "\<forall>s \<in> set r. r_rank s \<noteq> 0"
       "sorted_wrt (\<lambda>a b. r_rank b \<le> r_rank a) r"
    by blast
  from top r have t: "map r_state_id r = [''s2'']" "map r_rank r = [5]"
    by simp_all
  from all p(1) have a: "map r_state_id ranked = [''s1'', ''s2'', ''s3'', ''s5'']"
    "map r_rank ranked = [4, 5, 0, 3]"
    by simp_all
  from r p t a have
    "\<exists>r ranked rest.
      get_top_improvable_states sample_ds [''e1''] 1 = Inr r \<and>
      rank_explorations sample_ds [''e1''] [] = Inr ranked \<and>
      map r_state_id ranked = [''s1'', ''s2'', ''s3'', ''s5''] \<and>
      map r_rank ranked = [4, 5, 0, 3] \<and>
      map r_state_id r = [''s2''] \<and> map r_rank r = [5] \<and>
      mset (r @ rest) = mset (filter (\<lambda>s. r_rank s \<noteq> 0) ranked) \<and>
      (\<forall>t \<in> set r. \<forall>s \<in> set rest. r_rank s \<le> r_rank t) \<and>
      length r = min 1 (length (filter (\<lambda>s. r_rank s \<noteq> 0) ranked)) \<and>
      length r \<le> 1 \<and> (\<forall>s \<in> set r. r_rank s \<noteq> 0) \<and>
      sorted_wrt (\<lambda>a b. r_rank b \<le> r_rank a) r"
    by (intro exI [of _ r] exI [of _ ranked] exI [of _ rest] conjI) assumption+
  with h show ?thesis by (intro conjI) assumption+
qed

section \<open>Flags and ranks of a state\<close>

lemma best_flag_two:
  "best_flag [\<lparr>flag_rank = d, flag_improve_type = a\<rparr>, \<lparr>flag_rank = n, flag_improve_type = b\<rparr>]
     = (if n \<le> d then (d, a) else (n, b))"
  by (simp add: best_flag_def sorted_reverse_def)

lemma best_flag_none: "best_flag [] = (0, [])"
  by (simp add: best_flag_def sorted_reverse_def)

lemma rank_states_elems:
  "rank_states ds eid expl sids acc = Inr res \<Longrightarrow> r \<in> set res \<Longrightarrow>
   r \<in> set acc \<or> (\<exists>sid \<in> set sids. rank_state ds eid expl sid = Inr (Some r))"
proof (induction sids arbitrary: acc)
  case Nil
  then show ?case by simp
next
  case (Cons sid sids)
  show ?case
  proof (cases "rank_state ds eid expl sid")
    case (Inl err)
    with Cons.prems show ?thesis by simp
  next
    case (Inr res1)
    show ?thesis
    proof (cases res1)
      case None
      with Inr Cons.prems have "rank_states ds eid expl sids acc = Inr res" by simp
      from Cons.IH [OF this Cons.prems(2)] show ?thesis by auto
    next
      case (Some r1)
      with Inr Cons.prems have "rank_states ds eid expl sids (acc @ [r1]) = Inr res" by simp
      from Cons.IH [OF this Cons.prems(2)] Inr Some show ?thesis by auto
    qed
  qed
qed

lemma rank_explorations_elems:
  "rank_explorations ds eids acc = Inr res \<Longrightarrow> r \<in> set res \<Longrightarrow>
   r \<in> set acc \<or>
   (\<exists>eid \<in> set eids. \<exists>sid \<in> set (state_ids (Exploration_get ds eid)).
      rank_state ds eid (Exploration_get ds eid) sid = Inr (Some r))"
proof (induction eids arbitrary: acc)
  case Nil
  then show ?case by simp
next
  case (Cons eid eids)
  from Cons.prems(1) obtain mid where
    mid: "rank_states ds eid (Exploration_get ds eid) (state_ids (Exploration_get ds eid)) acc
            = Inr mid"
    and rest: "rank_explorations ds eids mid = Inr res"
    by (auto split: sum.splits)
  from Cons.IH [OF rest Cons.prems(2)] rank_states_elems [OF mid, of r]
  show ?case by auto
qed

lemma rank_state_flagged:
  assumes "rank_state ds eid (Exploration_get ds eid) sid = Inr (Some r)"
    and "r_rank r \<noteq> 0"
    and "0 \<le> total_entry_count (StateCounter_get ds eid sid)"
    and "total_entry_count (StateCounter_get ds eid sid) < 2 ^ 52"
  shows "r_exp_id r = eid \<and> r_state_id r = sid \<and>
         total_entry_count (StateCounter_get ds eid sid) \<noteq> 0 \<and>
         (meets_default ds eid sid \<or> meets_incomplete ds eid sid)"
proof -
  from assms(1) have nz: "total_entry_count (StateCounter_get ds eid sid) \<noteq> 0"
    by (auto simp: rank_state_def Let_def split: if_splits)
  with assms(3) have pos: "0 < total_entry_count (StateCounter_get ds eid sid)"
    by simp
  from assms(1,2) nz show ?thesis
    by (auto simp: rank_state_def Let_def eligible_flags_exact [OF pos assms(4)]
          meets_default_def meets_incomplete_def best_flag_none
        split: if_splits sum.splits list.splits)
qed

lemma state_flags_iff:
  assumes "0 < total_entry_count (StateCounter_get ds eid sid)"
    and "total_entry_count (StateCounter_get ds eid sid) < 2 ^ 52"
    and "handlers (widget (get_state_by_id ds (Exploration_get ds eid) sid)) \<noteq> [] \<or>
         \<not> spec_exceeds_fifth
             (total_answer_count
                (StateRuleAnswerLog_get ds (exploration_id (Exploration_get ds eid)) sid
                   (DEFAULT_RULESPEC_STR ds)))
             (total_entry_count (StateCounter_get ds eid sid))"
  shows "\<exists>flags.
           eligible_flags ds (get_state_by_id ds (Exploration_get ds eid) sid)
             (total_answer_count
                (StateRuleAnswerLog_get ds (exploration_id (Exploration_get ds eid)) sid
                   (DEFAULT_RULESPEC_STR ds)))
             (no_answer_count (StateCounter_get ds eid sid))
             (total_entry_count (StateCounter_get ds eid sid)) = Inr flags \<and>
           ((\<exists>f \<in> set flags. flag_improve_type f = IMPROVE_TYPE_DEFAULT)
              = meets_default ds eid sid) \<and>
           ((\<exists>f \<in> set flags. flag_improve_type f = IMPROVE_TYPE_INCOMPLETE)
              = meets_incomplete ds eid sid)"
  using assms(3)
  by (cases "handlers (widget (get_state_by_id ds (Exploration_get ds eid) sid))")
     (auto simp: eligible_flags_exact [OF assms(1,2)] meets_default_def meets_incomplete_def
        Let_def IMPROVE_TYPE_DEFAULT_def IMPROVE_TYPE_INCOMPLETE_def)

lemma rank_state_no_handler:
  assumes "0 < total_entry_count (StateCounter_get ds eid sid)"
    and "total_entry_count (StateCounter_get ds eid sid) < 2 ^ 52"
    and "handlers (widget (get_state_by_id ds (Exploration_get ds eid) sid)) = []"
    and "spec_exceeds_fifth
           (total_answer_count
              (StateRuleAnswerLog_get ds (exploration_id (Exploration_get ds eid)) sid
                 (DEFAULT_RULESPEC_STR ds)))
           (total_entry_count (StateCounter_get ds eid sid))"
  shows "rank_state ds eid (Exploration_get ds eid) sid = Inl IndexError"
  using assms(1,3,4)
  by (simp add: rank_state_def Let_def eligible_flags_exact [OF assms(1,2)])

text \<open>
  Claim C2, amended. Take a state whose total entry count is positive and below
  \<open>2 ^ 52\<close>, the range in which the double-precision product \<open>0.2 * total_entry_count\<close>
  decides like the exact one. If the state has an answer handler, or its default-rule
  answers do not exceed a fifth of its entries, the loop body computes its flags and
  appends an entry ranked by the best of them; the flags hold an \<open>IMPROVE_TYPE_DEFAULT\<close>
  flag exactly when the default-rule answers exceed a fifth of the entries and the
  default rule of the first handler leads back to the state, and an
  \<open>IMPROVE_TYPE_INCOMPLETE\<close> flag exactly when the visits without answer exceed a fifth
  of the entries. If the state has no handler and its default-rule answers exceed a
  fifth of its entries, the loop body raises IndexError. A state whose total entry count
  is zero is skipped before any flag is computed. When every total entry count read is
  non-negative and below \<open>2 ^ 52\<close>, every entry that \<open>get_top_improvable_states\<close>
  returns belongs to a state of the given explorations that was entered and meets one
  of the two conditions.
\<close>

theorem flags_by_threshold:
  "(0 < total_entry_count (StateCounter_get ds eid sid) \<and>
    total_entry_count (StateCounter_get ds eid sid) < 2 ^ 52 \<and>
    (handlers (widget (get_state_by_id ds (Exploration_get ds eid) sid)) \<noteq> [] \<or>
     \<not> spec_exceeds_fifth
         (total_answer_count
            (StateRuleAnswerLog_get ds (exploration_id (Exploration_get ds eid)) sid
               (DEFAULT_RULESPEC_STR ds)))
         (total_entry_count (StateCounter_get ds eid sid))) \<longrightarrow>
    (\<exists>flags r.
       eligible_flags ds (get_state_by_id ds (Exploration_get ds eid) sid)
         (total_answer_count
            (StateRuleAnswerLog_get ds (exploration_id (Exploration_get ds eid)) sid
               (DEFAULT_RULESPEC_STR ds)))
         (no_answer_count (StateCounter_get ds eid sid))
         (total_entry_count (StateCounter_get ds eid sid)) = Inr flags \<and>
       rank_state ds eid (Exploration_get ds eid) sid = Inr (Some r) \<and>
       r_rank r = fst (best_flag flags) \<and> r_type r = snd (best_flag flags) \<and>
       ((\<exists>f \<in> set flags. flag_improve_type f = IMPROVE_TYPE_DEFAULT)
          = meets_default ds eid sid) \<and>
       ((\<exists>f \<in> set flags. flag_improve_type f = IMPROVE_TYPE_INCOMPLETE)
          = meets_incomplete ds eid sid))) \<and>
   (0 < total_entry_count (StateCounter_get ds eid sid) \<and>
    total_entry_count (StateCounter_get ds eid sid) < 2 ^ 52 \<and>
    handlers (widget (get_state_by_id ds (Exploration_get ds eid) sid)) = [] \<and>
    spec_exceeds_fifth
      (total_answer_count
         (StateRuleAnswerLog_get ds (exploration_id (Exploration_get ds eid)) sid
            (DEFAULT_RULESPEC_STR ds)))
      (total_entry_count (StateCounter_get ds eid sid)) \<longrightarrow>
    rank_state ds eid (Exploration_get ds eid) sid = Inl IndexError) \<and>
   (total_entry_count (StateCounter_get ds eid sid) = 0 \<longrightarrow>
    rank_state ds eid (Exploration_get ds eid) sid = Inr None) \<and>
   (\<forall>rs. get_top_improvable_states ds exploration_ids N = Inr rs \<and>
         entries_exact ds exploration_ids \<longrightarrow>
      (\<forall>r \<in> set rs.
         r_exp_id r \<in> set exploration_ids \<and>
         r_state_id r \<in> set (state_ids (Exploration_get ds (r_exp_id r))) \<and>
         total_entry_count (StateCounter_get ds (r_exp_id r) (r_state_id r)) \<noteq> 0 \<and>
         (meets_default ds (r_exp_id r) (r_state_id r) \<or>
          meets_incomplete ds (r_exp_id r) (r_state_id r))))"
proof (intro conjI)
  show "0 < total_entry_count (StateCounter_get ds eid sid) \<and>
    total_entry_count (StateCounter_get ds eid sid) < 2 ^ 52 \<and>
    (handlers (widget (get_state_by_id ds (Exploration_get ds eid) sid)) \<noteq> [] \<or>
     \<not> spec_exceeds_fifth
         (total_answer_count
            (StateRuleAnswerLog_get ds (exploration_id (Exploration_get ds eid)) sid
               (DEFAULT_RULESPEC_STR ds)))
         (total_entry_count (StateCounter_get ds eid sid))) \<longrightarrow>
    (\<exists>flags r.
       eligible_flags ds (get_state_by_id ds (Exploration_get ds eid) sid)
         (total_answer_count
            (StateRuleAnswerLog_get ds (exploration_id (Exploration_get ds eid)) sid
               (DEFAULT_RULESPEC_STR ds)))
         (no_answer_count (StateCounter_get ds eid sid))
         (total_entry_count (StateCounter_get ds eid sid)) = Inr flags \<and>
       rank_state ds eid (Exploration_get ds eid) sid = Inr (Some r) \<and>
       r_rank r = fst (best_flag flags) \<and> r_type r = snd (best_flag flags) \<and>
       ((\<exists>f \<in> set flags. flag_improve_type f = IMPROVE_TYPE_DEFAULT)
          = meets_default ds eid sid) \<and>
       ((\<exists>f \<in> set flags. flag_improve_type f = IMPROVE_TYPE_INCOMPLETE)
          = meets_incomplete ds eid sid))"
  proof
    assume a: "0 < total_entry_count (StateCounter_get ds eid sid) \<and>
      total_entry_count (StateCounter_get ds eid sid) < 2 ^ 52 \<and>
      (handlers (widget (get_state_by_id ds (Exploration_get ds eid) sid)) \<noteq> [] \<or>
       \<not> spec_exceeds_fifth
           (total_answer_count
              (StateRuleAnswerLog_get ds (exploration_id (Exploration_get ds eid)) sid
                 (DEFAULT_RULESPEC_STR ds)))
           (total_entry_count (StateCounter_get ds eid sid)))"
    then have pos: "0 < total_entry_count (StateCounter_get ds eid sid)"
      and small: "total_entry_count (StateCounter_get ds eid sid) < 2 ^ 52"
      and h: "handlers (widget (get_state_by_id ds (Exploration_get ds eid) sid)) \<noteq> [] \<or>
       \<not> spec_exceeds_fifth
           (total_answer_count
              (StateRuleAnswerLog_get ds (exploration_id (Exploration_get ds eid)) sid
                 (DEFAULT_RULESPEC_STR ds)))
           (total_entry_count (StateCounter_get ds eid sid))"
      by blast+
    from state_flags_iff [OF pos small h] obtain flags where
      flags: "eligible_flags ds (get_state_by_id ds (Exploration_get ds eid) sid)
           (total_answer_count
              (StateRuleAnswerLog_get ds (exploration_id (Exploration_get ds eid)) sid
                 (DEFAULT_RULESPEC_STR ds)))
           (no_answer_count (StateCounter_get ds eid sid))
           (total_entry_count (StateCounter_get ds eid sid)) = Inr flags"
      and iffs: "(\<exists>f \<in> set flags. flag_improve_type f = IMPROVE_TYPE_DEFAULT)
            = meets_default ds eid sid"
        "(\<exists>f \<in> set flags. flag_improve_type f = IMPROVE_TYPE_INCOMPLETE)
            = meets_incomplete ds eid sid"
      by blast
    from pos flags obtain r where
      r: "rank_state ds eid (Exploration_get ds eid) sid = Inr (Some r)"
         "r_rank r = fst (best_flag flags)" "r_type r = snd (best_flag flags)"
      by (simp add: rank_state_def Let_def)
    from flags iffs r show "\<exists>flags r.
         eligible_flags ds (get_state_by_id ds (Exploration_get ds eid) sid)
           (total_answer_count
              (StateRuleAnswerLog_get ds (exploration_id (Exploration_get ds eid)) sid
                 (DEFAULT_RULESPEC_STR ds)))
           (no_answer_count (StateCounter_get ds eid sid))
           (total_entry_count (StateCounter_get ds eid sid)) = Inr flags \<and>
         rank_state ds eid (Exploration_get ds eid) sid = Inr (Some r) \<and>
         r_rank r = fst (best_flag flags) \<and> r_type r = snd (best_flag flags) \<and>
         ((\<exists>f \<in> set flags. flag_improve_type f = IMPROVE_TYPE_DEFAULT)
            = meets_default ds eid sid) \<and>
         ((\<exists>f \<in> set flags. flag_improve_type f = IMPROVE_TYPE_INCOMPLETE)
            = meets_incomplete ds eid sid)"
      by blast
  qed
next
  show "0 < total_entry_count (StateCounter_get ds eid sid) \<and>
    total_entry_count (StateCounter_get ds eid sid) < 2 ^ 52 \<and>
    handlers (widget (get_state_by_id ds (Exploration_get ds eid) sid)) = [] \<and>
    spec_exceeds_fifth
      (total_answer_count
         (StateRuleAnswerLog_get ds (exploration_id (Exploration_get ds eid)) sid
            (DEFAULT_RULESPEC_STR ds)))
      (total_entry_count (StateCounter_get ds eid sid)) \<longrightarrow>
    rank_state ds eid (Exploration_get ds eid) sid = Inl IndexError"
    using rank_state_no_handler [of ds eid sid] by blast
next
  show "total_entry_count (StateCounter_get ds eid sid) = 0 \<longrightarrow>
    rank_state ds eid (Exploration_get ds eid) sid = Inr None"
    by (simp add: rank_state_def)
next
  show "\<forall>rs. get_top_improvable_states ds exploration_ids N = Inr rs \<and>
         entries_exact ds exploration_ids \<longrightarrow>
      (\<forall>r \<in> set rs.
         r_exp_id r \<in> set exploration_ids \<and>
         r_state_id r \<in> set (state_ids (Exploration_get ds (r_exp_id r))) \<and>
         total_entry_count (StateCounter_get ds (r_exp_id r) (r_state_id r)) \<noteq> 0 \<and>
         (meets_default ds (r_exp_id r) (r_state_id r) \<or>
          meets_incomplete ds (r_exp_id r) (r_state_id r)))"
  proof (intro allI impI ballI)
    fix rs r
    assume "get_top_improvable_states ds exploration_ids N = Inr rs \<and>
         entries_exact ds exploration_ids"
    then have res: "get_top_improvable_states ds exploration_ids N = Inr rs"
      and exact: "entries_exact ds exploration_ids"
      by simp_all
    assume r: "r \<in> set rs"
    from res obtain ranked where
      ranked: "rank_explorations ds exploration_ids [] = Inr ranked"
      and rs: "rs = take N (sorted_reverse r_rank (filter (\<lambda>s. r_rank s \<noteq> 0) ranked))"
      by (auto simp: get_top_improvable_states_def split: sum.splits)
    from r have "r \<in> set (sorted_reverse r_rank (filter (\<lambda>s. r_rank s \<noteq> 0) ranked))"
      unfolding rs by (rule in_set_takeD)
    then have mem: "r \<in> set ranked" and nz: "r_rank r \<noteq> 0"
      by (simp_all add: sorted_reverse_set)
    from rank_explorations_elems [OF ranked mem] obtain eid' sid' where
      ids: "eid' \<in> set exploration_ids" "sid' \<in> set (state_ids (Exploration_get ds eid'))"
      and rk: "rank_state ds eid' (Exploration_get ds eid') sid' = Inr (Some r)"
      by auto
    from exact ids have b: "0 \<le> total_entry_count (StateCounter_get ds eid' sid')"
      "total_entry_count (StateCounter_get ds eid' sid') < 2 ^ 52"
      by (simp_all add: entries_exact_def)
    from rank_state_flagged [OF rk nz b] ids
    show "r_exp_id r \<in> set exploration_ids \<and>
         r_state_id r \<in> set (state_ids (Exploration_get ds (r_exp_id r))) \<and>
         total_entry_count (StateCounter_get ds (r_exp_id r) (r_state_id r)) \<noteq> 0 \<and>
         (meets_default ds (r_exp_id r) (r_state_id r) \<or>
          meets_incomplete ds (r_exp_id r) (r_state_id r))"
      by simp
  qed
qed

theorem flags_by_threshold_witness:
  "0 < total_entry_count (StateCounter_get sample_ds ''e1'' ''s1'') \<and>
   total_entry_count (StateCounter_get sample_ds ''e1'' ''s1'') < 2 ^ 52 \<and>
   handlers (widget (get_state_by_id sample_ds (Exploration_get sample_ds ''e1'') ''s1'')) \<noteq> [] \<and>
   meets_default sample_ds ''e1'' ''s1'' \<and> meets_incomplete sample_ds ''e1'' ''s1'' \<and>
   (\<exists>flags r.
      eligible_flags sample_ds (get_state_by_id sample_ds (Exploration_get sample_ds ''e1'') ''s1'')
        3 4 10 = Inr flags \<and>
      rank_state sample_ds ''e1'' (Exploration_get sample_ds ''e1'') ''s1'' = Inr (Some r) \<and>
      r_rank r = fst (best_flag flags) \<and> r_rank r = 4 \<and>
      (\<exists>f \<in> set flags. flag_improve_type f = IMPROVE_TYPE_DEFAULT) \<and>
      (\<exists>f \<in> set flags. flag_improve_type f = IMPROVE_TYPE_INCOMPLETE)) \<and>
   handlers (widget (get_state_by_id bare_ds (Exploration_get bare_ds ''e1'') ''s1'')) = [] \<and>
   rank_state bare_ds ''e1'' (Exploration_get bare_ds ''e1'') ''s1'' = Inl IndexError \<and>
   handlers (widget (get_state_by_id bare_ds (Exploration_get bare_ds ''e1'') ''s3'')) = [] \<and>
   \<not> meets_default bare_ds ''e1'' ''s3'' \<and> \<not> meets_incomplete bare_ds ''e1'' ''s3'' \<and>
   (\<exists>r. rank_state bare_ds ''e1'' (Exploration_get bare_ds ''e1'') ''s3'' = Inr (Some r) \<and>
        r_rank r = 0) \<and>
   total_entry_count (StateCounter_get sample_ds ''e1'' ''s4'') = 0 \<and>
   rank_state sample_ds ''e1'' (Exploration_get sample_ds ''e1'') ''s4'' = Inr None \<and>
   entries_exact sample_ds [''e1''] \<and>
   (\<exists>rs. get_top_improvable_states sample_ds [''e1''] 2 = Inr rs \<and>
      map r_state_id rs = [''s2'', ''s1''] \<and>
      (\<forall>r \<in> set rs.
         r_exp_id r \<in> set [''e1''] \<and>
         r_state_id r \<in> set (state_ids (Exploration_get sample_ds (r_exp_id r))) \<and>
         total_entry_count (StateCounter_get sample_ds (r_exp_id r) (r_state_id r)) \<noteq> 0 \<and>
         (meets_default sample_ds (r_exp_id r) (r_state_id r) \<or>
          meets_incomplete sample_ds (r_exp_id r) (r_state_id r))))"
proof -
  have v1: "total_entry_count (StateCounter_get sample_ds ''e1'' ''s1'') = 10"
    "total_answer_count
       (StateRuleAnswerLog_get sample_ds (exploration_id (Exploration_get sample_ds ''e1''))
          ''s1'' (DEFAULT_RULESPEC_STR sample_ds)) = 3"
    "no_answer_count (StateCounter_get sample_ds ''e1'' ''s1'') = 4"
    by code_simp+
  have h1: "handlers (widget (get_state_by_id sample_ds (Exploration_get sample_ds ''e1'') ''s1''))
              \<noteq> []"
    by code_simp
  have c1: "meets_default sample_ds ''e1'' ''s1''" "meets_incomplete sample_ds ''e1'' ''s1''"
    by code_simp+
  have v2: "total_entry_count (StateCounter_get bare_ds ''e1'' ''s1'') = 10"
    "handlers (widget (get_state_by_id bare_ds (Exploration_get bare_ds ''e1'') ''s1'')) = []"
    "spec_exceeds_fifth
       (total_answer_count
          (StateRuleAnswerLog_get bare_ds (exploration_id (Exploration_get bare_ds ''e1''))
             ''s1'' (DEFAULT_RULESPEC_STR bare_ds)))
       (total_entry_count (StateCounter_get bare_ds ''e1'' ''s1''))"
    by code_simp+
  have v3: "total_entry_count (StateCounter_get bare_ds ''e1'' ''s3'') = 10"
    "handlers (widget (get_state_by_id bare_ds (Exploration_get bare_ds ''e1'') ''s3'')) = []"
    "\<not> spec_exceeds_fifth
         (total_answer_count
            (StateRuleAnswerLog_get bare_ds (exploration_id (Exploration_get bare_ds ''e1''))
               ''s3'' (DEFAULT_RULESPEC_STR bare_ds)))
         (total_entry_count (StateCounter_get bare_ds ''e1'' ''s3''))"
    "\<not> meets_default bare_ds ''e1'' ''s3''" "\<not> meets_incomplete bare_ds ''e1'' ''s3''"
    by code_simp+
  have v4: "total_entry_count (StateCounter_get sample_ds ''e1'' ''s4'') = 0"
    by code_simp
  have ex: "entries_exact sample_ds [''e1'']"
    by code_simp
  have top: "isl (get_top_improvable_states sample_ds [''e1''] 2) = False"
    "map r_state_id (projr (get_top_improvable_states sample_ds [''e1''] 2)) = [''s2'', ''s1'']"
    by code_simp+
  note i1 = flags_by_threshold [of sample_ds "''e1''" "''s1''" "[''e1'']" 2]
  note i2 = flags_by_threshold [of bare_ds "''e1''" "''s1''" "[''e1'']" 2]
  note i3 = flags_by_threshold [of bare_ds "''e1''" "''s3''" "[''e1'']" 2]
  note i4 = flags_by_threshold [of sample_ds "''e1''" "''s4''" "[''e1'']" 2]
  from i1 v1 h1 obtain flags r where
    a: "eligible_flags sample_ds
          (get_state_by_id sample_ds (Exploration_get sample_ds ''e1'') ''s1'') 3 4 10 = Inr flags"
       "rank_state sample_ds ''e1'' (Exploration_get sample_ds ''e1'') ''s1'' = Inr (Some r)"
       "r_rank r = fst (best_flag flags)"
       "(\<exists>f \<in> set flags. flag_improve_type f = IMPROVE_TYPE_DEFAULT)
          = meets_default sample_ds ''e1'' ''s1''"
       "(\<exists>f \<in> set flags. flag_improve_type f = IMPROVE_TYPE_INCOMPLETE)
          = meets_incomplete sample_ds ''e1'' ''s1''"
    by auto
  have "map_sum id (map_option r_rank)
          (rank_state sample_ds ''e1'' (Exploration_get sample_ds ''e1'') ''s1'') = Inr (Some 4)"
    by code_simp
  with a(2) have a4: "r_rank r = 4" by simp
  from a a4 c1 have A: "\<exists>flags r.
      eligible_flags sample_ds (get_state_by_id sample_ds (Exploration_get sample_ds ''e1'') ''s1'')
        3 4 10 = Inr flags \<and>
      rank_state sample_ds ''e1'' (Exploration_get sample_ds ''e1'') ''s1'' = Inr (Some r) \<and>
      r_rank r = fst (best_flag flags) \<and> r_rank r = 4 \<and>
      (\<exists>f \<in> set flags. flag_improve_type f = IMPROVE_TYPE_DEFAULT) \<and>
      (\<exists>f \<in> set flags. flag_improve_type f = IMPROVE_TYPE_INCOMPLETE)"
    by (intro exI [of _ flags] exI [of _ r]) simp
  from i2 v2 have B: "rank_state bare_ds ''e1'' (Exploration_get bare_ds ''e1'') ''s1''
                        = Inl IndexError"
    by simp
  from i3 v3 obtain flags3 r3 where
    c: "rank_state bare_ds ''e1'' (Exploration_get bare_ds ''e1'') ''s3'' = Inr (Some r3)"
    by auto
  have "map_sum id (map_option r_rank)
          (rank_state bare_ds ''e1'' (Exploration_get bare_ds ''e1'') ''s3'') = Inr (Some 0)"
    by code_simp
  with c have C: "\<exists>r. rank_state bare_ds ''e1'' (Exploration_get bare_ds ''e1'') ''s3''
                        = Inr (Some r) \<and> r_rank r = 0"
    by simp
  from i4 v4 have D: "rank_state sample_ds ''e1'' (Exploration_get sample_ds ''e1'') ''s4''
                        = Inr None"
    by simp
  from top obtain rs where
    rs: "get_top_improvable_states sample_ds [''e1''] 2 = Inr rs"
        "map r_state_id rs = [''s2'', ''s1'']"
    by (cases "get_top_improvable_states sample_ds [''e1''] 2") auto
  with i1 ex have E: "\<forall>r \<in> set rs.
         r_exp_id r \<in> set [''e1''] \<and>
         r_state_id r \<in> set (state_ids (Exploration_get sample_ds (r_exp_id r))) \<and>
         total_entry_count (StateCounter_get sample_ds (r_exp_id r) (r_state_id r)) \<noteq> 0 \<and>
         (meets_default sample_ds (r_exp_id r) (r_state_id r) \<or>
          meets_incomplete sample_ds (r_exp_id r) (r_state_id r))"
    by blast
  from rs E have F: "\<exists>rs. get_top_improvable_states sample_ds [''e1''] 2 = Inr rs \<and>
      map r_state_id rs = [''s2'', ''s1''] \<and>
      (\<forall>r \<in> set rs.
         r_exp_id r \<in> set [''e1''] \<and>
         r_state_id r \<in> set (state_ids (Exploration_get sample_ds (r_exp_id r))) \<and>
         total_entry_count (StateCounter_get sample_ds (r_exp_id r) (r_state_id r)) \<noteq> 0 \<and>
         (meets_default sample_ds (r_exp_id r) (r_state_id r) \<or>
          meets_incomplete sample_ds (r_exp_id r) (r_state_id r)))"
    by (intro exI [of _ rs] conjI) assumption+
  have pos: "0 < total_entry_count (StateCounter_get sample_ds ''e1'' ''s1'')"
    "total_entry_count (StateCounter_get sample_ds ''e1'' ''s1'') < 2 ^ 52"
    by (simp_all add: v1)
  from pos h1 c1 A v2(2) B v3(2,4,5) C v4 D ex F show ?thesis
    by (intro conjI) assumption+
qed

text \<open>
  The claim as stated fails on a state that was never entered: \<open>s4\<close> has a logged
  default answer, which exceeds a fifth of its zero entries, and its default rule leads
  back to it, yet the loop skips it and it is not returned. It also fails for large
  counters: with \<open>5 * 2 ^ 51 - 1\<close> entries, \<open>2 ^ 51\<close> default answers and \<open>2 ^ 51\<close>
  visits without answer, the state \<open>s1\<close> meets both conditions, but the product
  \<open>0.2 * total_entry_count\<close> is \<open>2 ^ 51\<close> in double precision, so the state gets no
  flag and nothing is returned.
\<close>

theorem flags_by_threshold_counterexample:
  "meets_default sample_ds ''e1'' ''s4'' \<and>
   rank_state sample_ds ''e1'' (Exploration_get sample_ds ''e1'') ''s4'' = Inr None \<and>
   ''s4'' \<notin> set (map r_state_id (projr (get_top_improvable_states sample_ds [''e1''] 10))) \<and>
   total_entry_count (StateCounter_get large_ds ''e1'' ''s1'') = 5 * 2 ^ 51 - 1 \<and>
   meets_default large_ds ''e1'' ''s1'' \<and> meets_incomplete large_ds ''e1'' ''s1'' \<and>
   fifth_of (5 * 2 ^ 51 - 1) = Inr \<lparr>mantissa = 2 ^ 52, exponent = - 1\<rparr> \<and>
   eligible_flags large_ds (get_state_by_id large_ds (Exploration_get large_ds ''e1'') ''s1'')
     (2 ^ 51) (2 ^ 51) (5 * 2 ^ 51 - 1) = Inr [] \<and>
   get_top_improvable_states large_ds [''e1''] 10 = Inr []"
  by code_simp

text \<open>
  Claim C9, amended. Take a state whose total entry count is positive and below
  \<open>2 ^ 52\<close>, the range in which the double-precision threshold decides like the exact
  one. When the state is eligible for both flags, that is, it passes both thresholds and
  the default rule of its first handler leads back to the state itself, the rank of its
  entry is the maximum of the default-rule answer count and the no-answer count; the
  type is \<open>IMPROVE_TYPE_DEFAULT\<close> when the default-rule answer count is at least the
  no-answer count, so in particular when the two are equal, and
  \<open>IMPROVE_TYPE_INCOMPLETE\<close> otherwise.
\<close>

theorem both_flags_rank:
  assumes entered: "0 < total_entry_count (StateCounter_get ds eid sid)"
    and small: "total_entry_count (StateCounter_get ds eid sid) < 2 ^ 52"
    and d: "meets_default ds eid sid"
    and n: "meets_incomplete ds eid sid"
  shows "\<exists>r. rank_state ds eid (Exploration_get ds eid) sid = Inr (Some r) \<and>
           r_rank r =
             max (total_answer_count
                    (StateRuleAnswerLog_get ds (exploration_id (Exploration_get ds eid)) sid
                       (DEFAULT_RULESPEC_STR ds)))
                 (no_answer_count (StateCounter_get ds eid sid)) \<and>
           (total_answer_count
              (StateRuleAnswerLog_get ds (exploration_id (Exploration_get ds eid)) sid
                 (DEFAULT_RULESPEC_STR ds))
              = no_answer_count (StateCounter_get ds eid sid)
            \<longrightarrow> r_type r = IMPROVE_TYPE_DEFAULT) \<and>
           r_type r =
             (if no_answer_count (StateCounter_get ds eid sid)
                   \<le> total_answer_count
                        (StateRuleAnswerLog_get ds (exploration_id (Exploration_get ds eid)) sid
                           (DEFAULT_RULESPEC_STR ds))
              then IMPROVE_TYPE_DEFAULT else IMPROVE_TYPE_INCOMPLETE)"
proof -
  from d obtain h hs where
    hs: "handlers (widget (get_state_by_id ds (Exploration_get ds eid) sid)) = h # hs"
    and dest: "rule_dest (default_rule_spec ds h)
                 = PStr (state_id (get_state_by_id ds (Exploration_get ds eid) sid))"
    and dc: "spec_exceeds_fifth
               (total_answer_count
                  (StateRuleAnswerLog_get ds (exploration_id (Exploration_get ds eid)) sid
                     (DEFAULT_RULESPEC_STR ds)))
               (total_entry_count (StateCounter_get ds eid sid))"
    by (auto simp: meets_default_def Let_def split: list.splits)
  from n have nc: "spec_exceeds_fifth (no_answer_count (StateCounter_get ds eid sid))
                     (total_entry_count (StateCounter_get ds eid sid))"
    by (simp add: meets_incomplete_def)
  from entered hs dest dc nc show ?thesis
    by (simp add: rank_state_def Let_def eligible_flags_exact [OF entered small]
          best_flag_two max_def)
qed

theorem both_flags_rank_witness:
  "0 < total_entry_count (StateCounter_get sample_ds ''e1'' ''s2'') \<and>
   total_entry_count (StateCounter_get sample_ds ''e1'' ''s2'') < 2 ^ 52 \<and>
   meets_default sample_ds ''e1'' ''s2'' \<and> meets_incomplete sample_ds ''e1'' ''s2'' \<and>
   (\<exists>r. rank_state sample_ds ''e1'' (Exploration_get sample_ds ''e1'') ''s2'' = Inr (Some r) \<and>
        r_rank r = 5 \<and> r_type r = ''default'') \<and>
   meets_default sample_ds ''e1'' ''s1'' \<and> meets_incomplete sample_ds ''e1'' ''s1'' \<and>
   (\<exists>r. rank_state sample_ds ''e1'' (Exploration_get sample_ds ''e1'') ''s1'' = Inr (Some r) \<and>
        r_rank r = 4 \<and> r_type r = ''incomplete'')"
proof -
  have h: "0 < total_entry_count (StateCounter_get sample_ds ''e1'' ''s2'')"
    "total_entry_count (StateCounter_get sample_ds ''e1'' ''s2'') < 2 ^ 52"
    "meets_default sample_ds ''e1'' ''s2''" "meets_incomplete sample_ds ''e1'' ''s2''"
    by code_simp+
  have v: "total_answer_count
             (StateRuleAnswerLog_get sample_ds (exploration_id (Exploration_get sample_ds ''e1''))
                ''s2'' (DEFAULT_RULESPEC_STR sample_ds)) = 5"
    "no_answer_count (StateCounter_get sample_ds ''e1'' ''s2'') = 5"
    by code_simp+
  have h1: "0 < total_entry_count (StateCounter_get sample_ds ''e1'' ''s1'')"
    "total_entry_count (StateCounter_get sample_ds ''e1'' ''s1'') < 2 ^ 52"
    "meets_default sample_ds ''e1'' ''s1''" "meets_incomplete sample_ds ''e1'' ''s1''"
    by code_simp+
  have v1: "total_answer_count
             (StateRuleAnswerLog_get sample_ds (exploration_id (Exploration_get sample_ds ''e1''))
                ''s1'' (DEFAULT_RULESPEC_STR sample_ds)) = 3"
    "no_answer_count (StateCounter_get sample_ds ''e1'' ''s1'') = 4"
    by code_simp+
  from both_flags_rank [OF h] v have
    a: "\<exists>r. rank_state sample_ds ''e1'' (Exploration_get sample_ds ''e1'') ''s2'' = Inr (Some r) \<and>
        r_rank r = 5 \<and> r_type r = ''default''"
    by (simp add: IMPROVE_TYPE_DEFAULT_def)
  from both_flags_rank [OF h1] v1 have
    b: "\<exists>r. rank_state sample_ds ''e1'' (Exploration_get sample_ds ''e1'') ''s1'' = Inr (Some r) \<and>
        r_rank r = 4 \<and> r_type r = ''incomplete''"
    by (simp add: IMPROVE_TYPE_INCOMPLETE_def)
  from h a h1(3,4) b show ?thesis
    by (intro conjI) assumption+
qed

text \<open>
  The claim as stated names the two thresholds only. The state \<open>s5\<close> passes both (5
  default answers and 3 visits without answer, of 10 entries), but its default rule
  leads elsewhere: it gets the incomplete flag only, and its rank is 3, not 5. With
  large counters the thresholds of the source are not the exact ones: with
  \<open>5 * 2 ^ 51 - 1\<close> entries and \<open>2 ^ 51\<close> for both counts, the state \<open>s1\<close>, whose default
  rule leads back to it, passes both thresholds, but the product
  \<open>0.2 * total_entry_count\<close> is \<open>2 ^ 51\<close> in double precision and the rank is 0.
\<close>

theorem both_flags_rank_counterexample:
  "spec_exceeds_fifth
     (total_answer_count
        (StateRuleAnswerLog_get sample_ds (exploration_id (Exploration_get sample_ds ''e1''))
           ''s5'' (DEFAULT_RULESPEC_STR sample_ds)))
     (total_entry_count (StateCounter_get sample_ds ''e1'' ''s5'')) \<and>
   meets_incomplete sample_ds ''e1'' ''s5'' \<and>
   max (total_answer_count
          (StateRuleAnswerLog_get sample_ds (exploration_id (Exploration_get sample_ds ''e1''))
             ''s5'' (DEFAULT_RULESPEC_STR sample_ds)))
       (no_answer_count (StateCounter_get sample_ds ''e1'' ''s5'')) = 5 \<and>
   map_sum id (map_option r_rank)
     (rank_state sample_ds ''e1'' (Exploration_get sample_ds ''e1'') ''s5'') = Inr (Some 3) \<and>
   meets_default large_ds ''e1'' ''s1'' \<and> meets_incomplete large_ds ''e1'' ''s1'' \<and>
   max (total_answer_count
          (StateRuleAnswerLog_get large_ds (exploration_id (Exploration_get large_ds ''e1''))
             ''s1'' (DEFAULT_RULESPEC_STR large_ds)))
       (no_answer_count (StateCounter_get large_ds ''e1'' ''s1'')) = 2 ^ 51 \<and>
   map_sum id (map_option r_rank)
     (rank_state large_ds ''e1'' (Exploration_get large_ds ''e1'') ''s1'') = Inr (Some 0)"
  by code_simp

section \<open>The exported statistics\<close>

lemma map_of_fold_update:
  "\<forall>x \<in> set xs. k x = x \<Longrightarrow>
   map_of (fold (\<lambda>x acc. AList.update (k x) (v x) acc) xs acc) y
     = (if y \<in> set xs then Some (v y) else map_of acc y)"
proof (induction xs arbitrary: acc)
  case Nil
  then show ?case by simp
next
  case (Cons x xs)
  then show ?case by (auto simp: update_conv')
qed

lemma keys_fold_update:
  "\<forall>x \<in> set xs. k x = x \<Longrightarrow>
   fst ` set (fold (\<lambda>x acc. AList.update (k x) (v x) acc) xs acc) = set xs \<union> fst ` set acc"
proof (induction xs arbitrary: acc)
  case Nil
  then show ?case by simp
next
  case (Cons x xs)
  then show ?case by (auto simp: dom_update)
qed

lemma distinct_fold_update:
  "distinct (map fst acc) \<Longrightarrow>
   distinct (map fst (fold (\<lambda>x acc. AList.update (k x) (v x) acc) xs acc))"
  by (induction xs arbitrary: acc) (simp_all add: distinct_update)

lemma state_stats_loop_result:
  assumes "distinct (map fst answers)"
    and "\<forall>sid \<in> fst ` set answers. map_of sc sid \<noteq> None"
  shows "\<exists>stats'. state_stats_loop sc answers stats = Inr stats' \<and>
           (\<forall>y. map_of stats' y =
                  (case map_of answers y of
                     None \<Rightarrow> map_of stats y
                   | Some a \<Rightarrow> Some (make_state_stat (sc_count (the (map_of sc y))) a))) \<and>
           fst ` set stats' = fst ` set answers \<union> fst ` set stats \<and>
           (distinct (map fst stats) \<longrightarrow> distinct (map fst stats'))"
  using assms
proof (induction answers arbitrary: stats)
  case Nil
  then show ?case by simp
next
  case (Cons p answers)
  obtain sid a where p: "p = (sid, a)" by (cases p)
  from Cons.prems p obtain c where c: "map_of sc sid = Some c" by auto
  from Cons.prems p have d: "distinct (map fst answers)" and notin: "sid \<notin> fst ` set answers"
    and rest: "\<forall>sid \<in> fst ` set answers. map_of sc sid \<noteq> None"
    by auto
  from Cons.IH [OF d rest, of "AList.update sid (make_state_stat (sc_count c) a) stats"]
  obtain stats' where
    run: "state_stats_loop sc answers (AList.update sid (make_state_stat (sc_count c) a) stats)
            = Inr stats'"
    and look: "\<And>y. map_of stats' y =
                  (case map_of answers y of
                     None \<Rightarrow> map_of (AList.update sid (make_state_stat (sc_count c) a) stats) y
                   | Some a \<Rightarrow> Some (make_state_stat (sc_count (the (map_of sc y))) a))"
    and keys: "fst ` set stats' = fst ` set answers
                 \<union> fst ` set (AList.update sid (make_state_stat (sc_count c) a) stats)"
    and dist: "distinct (map fst (AList.update sid (make_state_stat (sc_count c) a) stats))
                 \<longrightarrow> distinct (map fst stats')"
    by blast
  from notin have none: "map_of answers sid = None"
    by (simp add: map_of_eq_None_iff)
  have "state_stats_loop sc (p # answers) stats = Inr stats'"
    by (simp add: p c run)
  moreover have "\<forall>y. map_of stats' y =
                  (case map_of (p # answers) y of
                     None \<Rightarrow> map_of stats y
                   | Some a \<Rightarrow> Some (make_state_stat (sc_count (the (map_of sc y))) a))"
    using none c by (auto simp: look p update_conv' split: option.splits)
  moreover have "fst ` set stats' = fst ` set (p # answers) \<union> fst ` set stats"
    by (auto simp: keys p dom_update)
  moreover have "distinct (map fst stats) \<longrightarrow> distinct (map fst stats')"
    using dist by (simp add: distinct_update)
  ultimately show ?case by blast
qed

lemma state_stats_loop_from_empty:
  assumes "distinct (map fst answers)"
    and "\<forall>sid \<in> fst ` set answers. map_of sc sid \<noteq> None"
  shows "\<exists>stats'. state_stats_loop sc answers [] = Inr stats' \<and>
           (\<forall>y. map_of stats' y =
                  (case map_of answers y of
                     None \<Rightarrow> None
                   | Some a \<Rightarrow> Some (make_state_stat (sc_count (the (map_of sc y))) a))) \<and>
           fst ` set stats' = fst ` set answers \<and>
           distinct (map fst stats')"
  using state_stats_loop_result [OF assms, of "[]"] by (simp cong: option.case_cong)

lemma make_state_stat_fields:
  "ss_name (make_state_stat c a) = ae_name a" "ss_count (make_state_stat c a) = c"
  by (simp_all add: make_state_stat_def split: prod.splits)

text \<open>
  Claim C7. Given that the datastore answers \<open>get_state_by_id\<close> with the state of that
  id, \<open>export_exploration_stats_to_dict\<close> returns a dict whose \<open>num_visits\<close> is the
  first-entry count of the initial state's counter, whose \<open>num_completions\<close> is the
  first-entry count of the \<open>END_DEST\<close> counter, and whose \<open>state_stats\<close> has exactly
  one entry per state id of the exploration, holding that state's name and total entry
  count.
\<close>

theorem export_exploration_stats:
  assumes ok: "state_ids_consistent ds (Exploration_get ds eid)"
  shows "\<exists>r. export_exploration_stats_to_dict ds eid = Inr r \<and>
           num_visits r =
             first_entry_count
               (StateCounter_get ds eid (init_state_id (Exploration_get ds eid))) \<and>
           num_completions r = first_entry_count (StateCounter_get ds eid (END_DEST ds)) \<and>
           distinct (map fst (state_stats r)) \<and>
           set (map fst (state_stats r)) = set (state_ids (Exploration_get ds eid)) \<and>
           (\<forall>sid \<in> set (state_ids (Exploration_get ds eid)).
              \<exists>entry. map_of (state_stats r) sid = Some entry \<and>
                ss_name entry = state_name (get_state_by_id ds (Exploration_get ds eid) sid) \<and>
                ss_count entry = total_entry_count (StateCounter_get ds eid sid))"
proof -
  define expl where "expl = Exploration_get ds eid"
  define answers where "answers = collect_answers ds eid expl"
  define sc where "sc = collect_state_counts ds eid expl"
  from ok have ids: "\<forall>sid \<in> set (state_ids expl). state_id (get_state_by_id ds expl sid) = sid"
    by (simp add: state_ids_consistent_def expl_def)
  have ans_look: "map_of answers y =
      (if y \<in> set (state_ids expl)
       then Some \<lparr>ae_name = state_name (get_state_by_id ds expl y),
                  ae_rules = collect_rules ds eid (get_state_by_id ds expl y)\<rparr>
       else None)" for y
    unfolding answers_def collect_answers_def Let_def
    using map_of_fold_update [OF ids,
        of "\<lambda>sid. \<lparr>ae_name = state_name (get_state_by_id ds expl sid),
                     ae_rules = collect_rules ds eid (get_state_by_id ds expl sid)\<rparr>" "[]" y]
    by simp
  have ans_keys: "fst ` set answers = set (state_ids expl)"
    unfolding answers_def collect_answers_def Let_def
    using keys_fold_update [OF ids, of _ "[]"] by simp
  have ans_dist: "distinct (map fst answers)"
    unfolding answers_def collect_answers_def Let_def
    by (rule distinct_fold_update) simp
  have sc_look: "map_of sc y =
      (if y \<in> set (state_ids expl)
       then Some \<lparr>sc_name = state_name (get_state_by_id ds expl y),
                  sc_count = total_entry_count (StateCounter_get ds eid y)\<rparr>
       else None)" for y
    unfolding sc_def collect_state_counts_def Let_def
    using map_of_fold_update [of "state_ids expl" "\<lambda>x. x"
        "\<lambda>sid. \<lparr>sc_name = state_name (get_state_by_id ds expl sid),
                     sc_count = total_entry_count (StateCounter_get ds eid sid)\<rparr>" "[]" y]
    by simp
  have "\<forall>sid \<in> fst ` set answers. map_of sc sid \<noteq> None"
    by (simp add: ans_keys sc_look)
  from state_stats_loop_from_empty [OF ans_dist this] obtain stats where
    run: "state_stats_loop sc answers [] = Inr stats"
    and look: "\<And>y. map_of stats y =
                  (case map_of answers y of
                     None \<Rightarrow> None
                   | Some a \<Rightarrow> Some (make_state_stat (sc_count (the (map_of sc y))) a))"
    and keys: "fst ` set stats = fst ` set answers"
    and dist: "distinct (map fst stats)"
    by blast
  have "export_exploration_stats_to_dict ds eid =
          Inr \<lparr>num_visits = first_entry_count (StateCounter_get ds eid (init_state_id expl)),
               num_completions = first_entry_count (StateCounter_get ds eid (END_DEST ds)),
               state_stats = stats\<rparr>"
    using run
    by (simp add: export_exploration_stats_to_dict_def Let_def expl_def answers_def sc_def)
  moreover have "\<forall>sid \<in> set (state_ids expl).
              \<exists>entry. map_of stats sid = Some entry \<and>
                ss_name entry = state_name (get_state_by_id ds expl sid) \<and>
                ss_count entry = total_entry_count (StateCounter_get ds eid sid)"
    by (simp add: look ans_look sc_look make_state_stat_fields)
  ultimately show ?thesis
    using dist keys ans_keys by (simp add: expl_def)
qed


theorem export_exploration_stats_witness:
  "state_ids_consistent sample_ds (Exploration_get sample_ds ''e1'') \<and>
   (\<exists>r. export_exploration_stats_to_dict sample_ds ''e1'' = Inr r \<and>
        num_visits r = 7 \<and> num_completions r = 6 \<and>
        distinct (map fst (state_stats r)) \<and>
        set (map fst (state_stats r)) = {''s1'', ''s2'', ''s3'', ''s4'', ''s5''} \<and>
        (\<exists>entry. map_of (state_stats r) ''s2'' = Some entry \<and>
           ss_name entry = ''s2'' \<and> ss_count entry = 20))"
proof -
  have h: "state_ids_consistent sample_ds (Exploration_get sample_ds ''e1'')"
    by code_simp
  have v: "first_entry_count
             (StateCounter_get sample_ds ''e1''
                (init_state_id (Exploration_get sample_ds ''e1''))) = 7"
    "first_entry_count (StateCounter_get sample_ds ''e1'' (END_DEST sample_ds)) = 6"
    "state_ids (Exploration_get sample_ds ''e1'') = [''s1'', ''s2'', ''s3'', ''s4'', ''s5'']"
    "state_name (get_state_by_id sample_ds (Exploration_get sample_ds ''e1'') ''s2'') = ''s2''"
    "total_entry_count (StateCounter_get sample_ds ''e1'' ''s2'') = 20"
    by code_simp+
  from export_exploration_stats [OF h] v h show ?thesis
    by auto
qed

section \<open>Creating an exploration\<close>

text \<open>
  Claim C5, amended. \<open>NewExploration.post\<close> validates before it creates anything: a
  request whose title is missing or empty (or otherwise false) raises
  \<open>No title supplied.\<close>; a request with a title whose category is missing (or false)
  raises \<open>No category chosen.\<close>; in both cases the datastore is left as it was. Only a
  request with both creates an exploration, by one of the two creation functions, and
  returns its id as \<open>explorationId\<close>.
\<close>

theorem NewExploration_post_validates:
  "(p ''title'' = None \<or> p ''title'' = Some (PStr '''') \<longrightarrow>
      \<not> truthy (payload_get p ''title'')) \<and>
   (p ''category'' = None \<longrightarrow> \<not> truthy (payload_get p ''category'')) \<and>
   (\<not> truthy (payload_get p ''title'') \<longrightarrow>
      NewExploration_post svc user_id p yaml_content s
        = (Inl (InvalidInputException ''No title supplied.''), s)) \<and>
   (truthy (payload_get p ''title'') \<and> \<not> truthy (payload_get p ''category'') \<longrightarrow>
      NewExploration_post svc user_id p yaml_content s
        = (Inl (InvalidInputException ''No category chosen.''), s)) \<and>
   (truthy (payload_get p ''title'') \<and> truthy (payload_get p ''category'') \<longrightarrow>
      (\<exists>new_id s'.
         (new_id, s') =
           (if yaml_content \<noteq> [] \<and> ALLOW_YAML_FILE_UPLOAD svc
            then create_from_yaml svc yaml_content user_id
                   (payload_get p ''title'') (payload_get p ''category'') s
            else create_new svc user_id
                   (payload_get p ''title'') (payload_get p ''category'') s) \<and>
         NewExploration_post svc user_id p yaml_content s
           = (Inr (PDict [(''explorationId'', PStr new_id)]), s')))"
  by (auto simp: NewExploration_post_def payload_get_def Let_def split: prod.splits option.splits)

theorem NewExploration_post_validates_witness:
  "[''category'' \<mapsto> PStr ''Maths''] ''title'' = None \<and>
   NewExploration_post sample_services (PStr ''u'') [''category'' \<mapsto> PStr ''Maths''] [] 0
     = (Inl (InvalidInputException ''No title supplied.''), 0) \<and>
   truthy (payload_get [''title'' \<mapsto> PStr ''Intro''] ''title'') \<and>
   [''title'' \<mapsto> PStr ''Intro''] ''category'' = None \<and>
   NewExploration_post sample_services (PStr ''u'') [''title'' \<mapsto> PStr ''Intro''] [] 0
     = (Inl (InvalidInputException ''No category chosen.''), 0) \<and>
   truthy (payload_get [''title'' \<mapsto> PStr ''Intro'', ''category'' \<mapsto> PStr ''Maths''] ''title'') \<and>
   truthy (payload_get [''title'' \<mapsto> PStr ''Intro'', ''category'' \<mapsto> PStr ''Maths''] ''category'') \<and>
   NewExploration_post sample_services (PStr ''u'')
       [''title'' \<mapsto> PStr ''Intro'', ''category'' \<mapsto> PStr ''Maths''] [] 0
     = (Inr (PDict [(''explorationId'', PStr ''new'')]), 1)"
proof -
  have a: "[''category'' \<mapsto> PStr ''Maths''] ''title'' = None"
    by simp
  have b: "truthy (payload_get [''title'' \<mapsto> PStr ''Intro''] ''title'')"
    "[''title'' \<mapsto> PStr ''Intro''] ''category'' = None"
    by (simp_all add: payload_get_def)
  have c: "truthy (payload_get [''title'' \<mapsto> PStr ''Intro'', ''category'' \<mapsto> PStr ''Maths''] ''title'')"
    "truthy (payload_get [''title'' \<mapsto> PStr ''Intro'', ''category'' \<mapsto> PStr ''Maths''] ''category'')"
    by (simp_all add: payload_get_def)
  from a NewExploration_post_validates
         [of "[''category'' \<mapsto> PStr ''Maths'']" sample_services "PStr ''u''" "[]" 0]
  have 1: "NewExploration_post sample_services (PStr ''u'') [''category'' \<mapsto> PStr ''Maths''] [] 0
     = (Inl (InvalidInputException ''No title supplied.''), 0)"
    by blast
  from b NewExploration_post_validates
         [of "[''title'' \<mapsto> PStr ''Intro'']" sample_services "PStr ''u''" "[]" 0]
  have 2: "NewExploration_post sample_services (PStr ''u'') [''title'' \<mapsto> PStr ''Intro''] [] 0
     = (Inl (InvalidInputException ''No category chosen.''), 0)"
    by blast
  from c NewExploration_post_validates
         [of "[''title'' \<mapsto> PStr ''Intro'', ''category'' \<mapsto> PStr ''Maths'']"
             sample_services "PStr ''u''" "[]" 0]
  have 3: "NewExploration_post sample_services (PStr ''u'')
       [''title'' \<mapsto> PStr ''Intro'', ''category'' \<mapsto> PStr ''Maths''] [] 0
     = (Inr (PDict [(''explorationId'', PStr ''new'')]), 1)"
    by (simp add: sample_services_def)
  from a b c 1 2 3 show ?thesis by blast
qed

text \<open>
  The claim as stated promises \<open>No category chosen.\<close> for every request without a
  category; the title is checked first, so the empty payload gets \<open>No title supplied.\<close>
\<close>

theorem NewExploration_post_validates_counterexample:
  "Map.empty ''category'' = None \<and>
   NewExploration_post sample_services (PStr ''u'') Map.empty [] 0
     = (Inl (InvalidInputException ''No title supplied.''), 0) \<and>
   NewExploration_post sample_services (PStr ''u'') Map.empty [] 0
     \<noteq> (Inl (InvalidInputException ''No category chosen.''), 0)"
  by (simp add: NewExploration_post_def payload_get_def)

section \<open>Updating an exploration\<close>

lemma and_then_Inl [simp]: "and_then (Inl err) f = Inl err"
  by (simp add: and_then_def)

lemma and_then_Inr [simp]: "and_then (Inr x) f = f x"
  by (simp add: and_then_def)

lemma and_then_Inr_iff:
  "and_then m f = Inr y \<longleftrightarrow> (\<exists>x. m = Inr x \<and> f x = Inr y)"
  by (cases m) simp_all

lemma update_fields_editor_ids [simp]: "editor_ids (update_fields p expl) = editor_ids expl"
  by (simp add: update_fields_def Let_def)

lemma update_fields_is_public:
  "is_public (update_fields p expl) = (truthy (payload_get p ''is_public'') \<or> is_public expl)"
  by (simp add: update_fields_def Let_def)

lemma update_fields_image_id:
  "image_id (update_fields p expl) =
     (case p ''image_id'' of
        None \<Rightarrow> image_id expl
      | Some v \<Rightarrow> if v = PStr ''null'' then PNone else v)"
  by (auto simp: update_fields_def Let_def payload_get_def split: option.splits)

lemma update_parameters_frame:
  "update_parameters v e = Inr e' \<Longrightarrow>
   editor_ids e' = editor_ids e \<and> is_public e' = is_public e \<and> image_id e' = image_id e"
  by (auto simp: update_parameters_def and_then_Inr_iff split: if_splits)

lemma fold_add_editor_frame:
  "\<forall>email e. sel (add_editor email e) = sel e \<Longrightarrow> sel (fold add_editor emails e) = sel e"
  by (induction emails arbitrary: e) simp_all

lemma update_editors_frame:
  assumes "\<forall>email e. sel (add_editor email e) = sel e"
    and "sel (e\<lparr>editor_ids := []\<rparr>) = sel e"
    and "update_editors add_editor user_id editors e = Inr e'"
  shows "sel e' = sel e"
  using assms(3) fold_add_editor_frame [OF assms(1)] assms(2)
  by (auto simp: update_editors_def and_then_Inr_iff split: if_splits)

text \<open>
  Claim C6. A request with a non-empty \<open>editors\<close> value from anyone but the first
  entry of \<open>editor_ids\<close> raises UnauthorizedUserException before \<open>exploration.put()\<close>
  is reached; and whenever the handler persists an exploration whose \<open>editor_ids\<close>
  differ from the ones it started with, the request carried a non-empty \<open>editors\<close>
  value and came from that first entry.
\<close>

theorem editors_only_by_owner:
  "(truthy (payload_get p ''editors'') \<and>
    \<not> (editor_ids expl \<noteq> [] \<and> user_id = hd (editor_ids expl)) \<longrightarrow>
      ExplorationHandler_put add_editor user_id p expl =
        Inl (UnauthorizedUserException
               ''Only the exploration owner can add new collaborators.'')) \<and>
   (\<forall>e'. ExplorationHandler_put add_editor user_id p expl = Inr e' \<and>
          editor_ids e' \<noteq> editor_ids expl \<longrightarrow>
          truthy (payload_get p ''editors'') \<and>
          editor_ids expl \<noteq> [] \<and> user_id = hd (editor_ids expl))"
proof (rule conjI; intro allI impI)
  assume "truthy (payload_get p ''editors'') \<and>
    \<not> (editor_ids expl \<noteq> [] \<and> user_id = hd (editor_ids expl))"
  then show "ExplorationHandler_put add_editor user_id p expl =
        Inl (UnauthorizedUserException
               ''Only the exploration owner can add new collaborators.'')"
    by (auto simp: ExplorationHandler_put_def update_editors_def)
next
  fix e'
  assume a: "ExplorationHandler_put add_editor user_id p expl = Inr e' \<and>
          editor_ids e' \<noteq> editor_ids expl"
  then obtain e5 where
    e5: "update_editors add_editor user_id (payload_get p ''editors'') (update_fields p expl)
           = Inr e5"
    and e': "update_parameters (payload_get p ''parameters'') e5 = Inr e'"
    by (auto simp: ExplorationHandler_put_def and_then_Inr_iff)
  from update_parameters_frame [OF e'] a have "editor_ids e5 \<noteq> editor_ids expl"
    by simp
  with e5 show "truthy (payload_get p ''editors'') \<and>
          editor_ids expl \<noteq> [] \<and> user_id = hd (editor_ids expl)"
    by (auto simp: update_editors_def split: if_splits)
qed

theorem editors_only_by_owner_witness:
  "truthy (payload_get [''editors'' \<mapsto> PList [PStr ''eve'']] ''editors'') \<and>
   \<not> (editor_ids (sample_exploration ''e1'') \<noteq> [] \<and>
      PStr ''eve'' = hd (editor_ids (sample_exploration ''e1''))) \<and>
   ExplorationHandler_put sample_add_editor (PStr ''eve'')
       [''editors'' \<mapsto> PList [PStr ''eve'']] (sample_exploration ''e1'')
     = Inl (UnauthorizedUserException
              ''Only the exploration owner can add new collaborators.'') \<and>
   map_sum id editor_ids
     (ExplorationHandler_put sample_add_editor (PStr ''owner'')
        [''editors'' \<mapsto> PList [PStr ''eve'']] (sample_exploration ''e1''))
     = Inr [PStr ''eve'']"
proof -
  have h: "truthy (payload_get [''editors'' \<mapsto> PList [PStr ''eve'']] ''editors'') \<and>
     \<not> (editor_ids (sample_exploration ''e1'') \<noteq> [] \<and>
        PStr ''eve'' = hd (editor_ids (sample_exploration ''e1'')))"
    by (simp add: payload_get_def sample_exploration_def)
  with editors_only_by_owner
         [of "[''editors'' \<mapsto> PList [PStr ''eve'']]" "sample_exploration ''e1''"
             "PStr ''eve''" sample_add_editor]
  have "ExplorationHandler_put sample_add_editor (PStr ''eve'')
       [''editors'' \<mapsto> PList [PStr ''eve'']] (sample_exploration ''e1'')
     = Inl (UnauthorizedUserException
              ''Only the exploration owner can add new collaborators.'')"
    by blast
  moreover have "map_sum id editor_ids
     (ExplorationHandler_put sample_add_editor (PStr ''owner'')
        [''editors'' \<mapsto> PList [PStr ''eve'']] (sample_exploration ''e1''))
     = Inr [PStr ''eve'']"
    by (simp add: ExplorationHandler_put_def update_editors_def update_fields_def
          update_parameters_def payload_get_def sample_exploration_def sample_add_editor_def)
  ultimately show ?thesis using h by blast
qed

text \<open>
  Claim C8. With an \<open>add_editor\<close> that leaves \<open>is_public\<close> alone, a put that persists
  the exploration leaves \<open>is_public\<close> true when the payload's value is true in a
  condition and unchanged otherwise; hence an exploration that is public stays public
  through any sequence of put requests.
\<close>

theorem is_public_never_reset:
  assumes keep: "\<forall>email e. is_public (add_editor email e) = is_public e"
  shows "(\<forall>e'. ExplorationHandler_put add_editor user_id p expl = Inr e' \<longrightarrow>
            is_public e' = (truthy (payload_get p ''is_public'') \<or> is_public expl)) \<and>
         (is_public expl \<longrightarrow> is_public (run_puts add_editor reqs expl))"
proof -
  have step: "is_public e' = (truthy (payload_get q ''is_public'') \<or> is_public e)"
    if "ExplorationHandler_put add_editor u q e = Inr e'" for u q e e'
  proof -
    from that obtain e5 where
      e5: "update_editors add_editor u (payload_get q ''editors'') (update_fields q e) = Inr e5"
      and e': "update_parameters (payload_get q ''parameters'') e5 = Inr e'"
      by (auto simp: ExplorationHandler_put_def and_then_Inr_iff)
    from update_editors_frame [of is_public, OF keep _ e5] have
      "is_public e5 = is_public (update_fields q e)"
      by simp
    with update_parameters_frame [OF e'] show ?thesis
      by (simp add: update_fields_is_public)
  qed
  have "is_public e \<Longrightarrow> is_public (run_puts add_editor reqs e)" for e
  proof (induction reqs arbitrary: e)
    case Nil
    then show ?case by simp
  next
    case (Cons req reqs)
    obtain u q where req: "req = (u, q)" by (cases req)
    show ?case
    proof (cases "ExplorationHandler_put add_editor u q e")
      case (Inl err)
      with Cons req show ?thesis by simp
    next
      case (Inr e')
      from step [OF Inr] Cons.prems have "is_public e'" by simp
      from Cons.IH [OF this] Inr req show ?thesis by simp
    qed
  qed
  with step show ?thesis by blast
qed

theorem is_public_never_reset_witness:
  "is_public ((sample_exploration ''e1'')\<lparr>is_public := True\<rparr>) \<and>
   is_public
     (run_puts sample_add_editor
        [(PStr ''owner'', [''is_public'' \<mapsto> PBool False, ''title'' \<mapsto> PStr ''New'']),
         (PStr ''eve'', [''editors'' \<mapsto> PList [PStr ''eve'']])]
        ((sample_exploration ''e1'')\<lparr>is_public := True\<rparr>))"
proof -
  have keep: "\<forall>email e. is_public (sample_add_editor email e) = is_public e"
    by (simp add: sample_add_editor_def)
  have pub: "is_public ((sample_exploration ''e1'')\<lparr>is_public := True\<rparr>)"
    by simp
  from is_public_never_reset [OF keep] pub show ?thesis
    by blast
qed

text \<open>
  Claim C10. With an \<open>add_editor\<close> that leaves \<open>image_id\<close> alone, a put that persists
  the exploration leaves \<open>image_id\<close> unchanged when the payload has no key
  \<open>image_id\<close>, sets it to None when the value is the string \<open>null\<close>, and to the value
  otherwise.
\<close>

theorem image_id_frame:
  assumes keep: "\<forall>email e. image_id (add_editor email e) = image_id e"
    and put: "ExplorationHandler_put add_editor user_id p expl = Inr e'"
  shows "image_id e' =
           (case p ''image_id'' of
              None \<Rightarrow> image_id expl
            | Some v \<Rightarrow> if v = PStr ''null'' then PNone else v)"
proof -
  from put obtain e5 where
    e5: "update_editors add_editor user_id (payload_get p ''editors'') (update_fields p expl)
           = Inr e5"
    and e': "update_parameters (payload_get p ''parameters'') e5 = Inr e'"
    by (auto simp: ExplorationHandler_put_def and_then_Inr_iff)
  from update_editors_frame [of image_id, OF keep _ e5] have
    "image_id e5 = image_id (update_fields p expl)"
    by simp
  with update_parameters_frame [OF e'] show ?thesis
    by (simp add: update_fields_image_id)
qed


theorem image_id_frame_witness:
  "\<exists>e'. ExplorationHandler_put sample_add_editor (PStr ''owner'')
          [''image_id'' \<mapsto> PStr ''null'']
          ((sample_exploration ''e1'')\<lparr>image_id := PStr ''img1''\<rparr>) = Inr e' \<and>
        image_id e' = PNone"
proof -
  have keep: "\<forall>email e. image_id (sample_add_editor email e) = image_id e"
    by (simp add: sample_add_editor_def)
  have "\<exists>e'. ExplorationHandler_put sample_add_editor (PStr ''owner'')
          [''image_id'' \<mapsto> PStr ''null'']
          ((sample_exploration ''e1'')\<lparr>image_id := PStr ''img1''\<rparr>) = Inr e'"
    by (simp add: ExplorationHandler_put_def update_editors_def update_fields_def
          update_parameters_def payload_get_def)
  then obtain e' where
    put: "ExplorationHandler_put sample_add_editor (PStr ''owner'')
          [''image_id'' \<mapsto> PStr ''null'']
          ((sample_exploration ''e1'')\<lparr>image_id := PStr ''img1''\<rparr>) = Inr e'"
    by blast
  from image_id_frame [OF keep put] have "image_id e' = PNone"
    by simp
  with put show ?thesis by blast
qed

section \<open>Saving a state: the ruleset\<close>

lemma process_rule_dict:
  "process_rule reg gw n i (PDict d) =
     (case map_of d ''description'' of
        None \<Rightarrow> Inl KeyError
      | Some description \<Rightarrow>
          if description = PStr (DEFAULT_RULE_NAME reg)
          then (if int i \<noteq> int n - 1 then Inl invalid_ruleset
                else case map_of d ''name'' of
                       None \<Rightarrow> Inl KeyError
                     | Some nm \<Rightarrow>
                         if nm \<noteq> PStr (DEFAULT_RULE_NAME reg) then Inl invalid_ruleset
                         else Inr (rule_spec_of d))
          else and_then
                 (normalize_inputs reg (get_rule_by_name reg gw ''submit'' (dict_get d ''name''))
                    (dict_get d ''inputs''))
                 (\<lambda>inputs'. Inr ((rule_spec_of d)\<lparr>rule_inputs := inputs'\<rparr>)))"
  by (simp add: process_rule_def rule_spec_of_def Let_def split: option.splits)

lemma process_rules_prefix:
  assumes "\<forall>j \<in> set pre. \<exists>rule sr. py_getitem ruleset (PInt (int j)) = Inr rule \<and>
             process_rule reg gw n j rule = Inr sr"
    and "py_getitem ruleset (PInt (int i)) = Inr rule"
    and "process_rule reg gw n i rule = Inl err"
  shows "process_rules reg gw ruleset n (pre @ i # post) specs = Inl err"
  using assms
proof (induction pre arbitrary: specs)
  case Nil
  then show ?case by simp
next
  case (Cons j pre)
  then obtain rj sr where "py_getitem ruleset (PInt (int j)) = Inr rj"
    "process_rule reg gw n j rj = Inr sr"
    by auto
  with Cons show ?case by simp
qed

lemma process_rules_fails:
  assumes "i \<in> set idxs"
    and "py_getitem ruleset (PInt (int i)) = Inr rule"
    and "process_rule reg gw n i rule = Inl err"
  shows "\<exists>err'. process_rules reg gw ruleset n idxs specs = Inl err'"
  using assms
proof (induction idxs arbitrary: specs)
  case Nil
  then show ?case by simp
next
  case (Cons j idxs)
  show ?case
  proof (cases "and_then (py_getitem ruleset (PInt (int j))) (process_rule reg gw n j)")
    case (Inl e)
    then show ?thesis by (auto simp: and_then_def split: sum.splits)
  next
    case (Inr sr)
    then obtain rj where rj: "py_getitem ruleset (PInt (int j)) = Inr rj"
      "process_rule reg gw n j rj = Inr sr"
      by (auto simp: and_then_Inr_iff)
    with Cons.prems have "i \<in> set idxs"
      by auto
    from Cons.IH [OF this Cons.prems(2,3)] rj show ?thesis
      by simp
  qed
qed

lemma py_getitem_list_nat:
  "i < length rules \<Longrightarrow> py_getitem (PList rules) (PInt (int i)) = Inr (rules ! i)"
  by (simp add: py_index_def)

lemma process_ruleset_fails:
  assumes i: "i < length rules"
    and fail: "process_rule reg gw (length rules) i (rules ! i) = Inl err"
  shows "\<exists>err'. process_ruleset reg gw (PList rules) = Inl err'"
proof -
  from i have mem: "i \<in> set [0..<length rules]"
    by simp
  from process_rules_fails [OF mem py_getitem_list_nat [OF i] fail]
  show ?thesis
    by (simp add: process_ruleset_def)
qed

lemma process_ruleset_first_failure:
  assumes i: "i < length rules"
    and fail: "process_rule reg gw (length rules) i (rules ! i) = Inl err"
    and before: "\<forall>j < i. \<exists>sr. process_rule reg gw (length rules) j (rules ! j) = Inr sr"
  shows "process_ruleset reg gw (PList rules) = Inl err"
proof -
  have split: "[0..<length rules] = [0..<i] @ i # [Suc i..<length rules]"
    using i by (metis le0 less_imp_le_nat upt_add_eq_append upt_conv_Cons
        ordered_cancel_comm_monoid_diff_class.add_diff_inverse)
  have pre: "\<forall>j \<in> set [0..<i]. \<exists>rule sr.
               py_getitem (PList rules) (PInt (int j)) = Inr rule \<and>
               process_rule reg gw (length rules) j rule = Inr sr"
  proof
    fix j assume "j \<in> set [0..<i]"
    then have j: "j < i" by simp
    with i have "py_getitem (PList rules) (PInt (int j)) = Inr (rules ! j)"
      by (intro py_getitem_list_nat) simp
    with before j show "\<exists>rule sr.
               py_getitem (PList rules) (PInt (int j)) = Inr rule \<and>
               process_rule reg gw (length rules) j rule = Inr sr"
      by blast
  qed
  from process_rules_prefix [OF pre py_getitem_list_nat [OF i] fail]
  show ?thesis
    by (simp add: process_ruleset_def split)
qed


lemma put_rulesets_submit:
  assumes "payload_get p ''interactive_rulesets'' = PDict rs"
    and "map_of rs ''submit'' = Some raw"
    and "recursively_remove_key reg raw ''$$hashKey'' = ruleset"
  shows "put_rulesets reg (payload_get p ''interactive_rulesets'') st =
           and_then
             (process_ruleset reg (get_widget_by_id reg ''interactive'' (widget_id (widget st)))
                ruleset)
             (\<lambda>specs. Inr (st\<lparr>widget :=
                         (widget st)\<lparr>handlers :=
                           [\<lparr>handler_name = ''submit'', rule_specs = specs\<rparr>]\<rparr>\<rparr>))"
proof -
  from assms(2) have "rs \<noteq> []" by auto
  with assms show ?thesis
    by (simp add: put_rulesets_def Let_def)
qed

lemma StateHandler_put_ruleset_error:
  assumes "payload_get p ''interactive_rulesets'' = PDict rs"
    and "map_of rs ''submit'' = Some raw"
    and "recursively_remove_key reg raw ''$$hashKey'' = ruleset"
    and "put_prelude reg expl p st = Inr st5"
    and "process_ruleset reg (get_widget_by_id reg ''interactive'' (widget_id (widget st5)))
           ruleset = Inl err"
  shows "StateHandler_put reg expl p st = Inl err"
  using assms(4,5) put_rulesets_submit [OF assms(1-3), of st5]
  by (simp add: StateHandler_put_def)

lemma StateHandler_put_never_saves:
  assumes "payload_get p ''interactive_rulesets'' = PDict rs"
    and "map_of rs ''submit'' = Some raw"
    and "recursively_remove_key reg raw ''$$hashKey'' = ruleset"
    and "\<forall>gw. \<exists>err. process_ruleset reg gw ruleset = Inl err"
  shows "\<exists>err. StateHandler_put reg expl p st = Inl err"
proof (cases "put_prelude reg expl p st")
  case (Inl err)
  then show ?thesis by (simp add: StateHandler_put_def)
next
  case (Inr st5)
  from assms(4) obtain err where
    "process_ruleset reg (get_widget_by_id reg ''interactive'' (widget_id (widget st5)))
       ruleset = Inl err"
    by blast
  from StateHandler_put_ruleset_error [OF assms(1-3) Inr this] show ?thesis
    by blast
qed

text \<open>
  Claim C3, amended. Let a ruleset hold, at index \<open>i\<close>, a rule whose description is the
  default rule name and which is not the last rule, or which has a name other than the
  default rule name. Then the loop body raises the ValueError at that rule; the loop,
  and the handler once its earlier updates went through, raise that ValueError when
  every earlier rule is processed without exception; and in any case the handler raises
  an exception, so that the state is never saved.
\<close>

theorem default_rule_must_be_last:
  assumes i: "i < length rules"
    and rule: "rules ! i = PDict d"
    and descr: "map_of d ''description'' = Some (PStr (DEFAULT_RULE_NAME reg))"
    and bad: "i \<noteq> length rules - 1 \<or>
              (\<exists>nm. map_of d ''name'' = Some nm \<and> nm \<noteq> PStr (DEFAULT_RULE_NAME reg))"
  shows "process_rule reg gw (length rules) i (rules ! i) = Inl invalid_ruleset \<and>
         ((\<forall>j < i. \<exists>sr. process_rule reg gw (length rules) j (rules ! j) = Inr sr) \<longrightarrow>
            process_ruleset reg gw (PList rules) = Inl invalid_ruleset) \<and>
         (\<exists>err. process_ruleset reg gw (PList rules) = Inl err) \<and>
         (payload_get p ''interactive_rulesets'' = PDict rs \<and>
          map_of rs ''submit'' = Some raw \<and>
          recursively_remove_key reg raw ''$$hashKey'' = PList rules \<longrightarrow>
            (\<exists>err. StateHandler_put reg expl p st = Inl err) \<and>
            (\<forall>st5. put_prelude reg expl p st = Inr st5 \<and>
               (\<forall>j < i. \<exists>sr.
                  process_rule reg
                    (get_widget_by_id reg ''interactive'' (widget_id (widget st5)))
                    (length rules) j (rules ! j) = Inr sr) \<longrightarrow>
               StateHandler_put reg expl p st = Inl invalid_ruleset))"
proof -
  have fail: "process_rule reg w (length rules) i (rules ! i) = Inl invalid_ruleset" for w
  proof -
    from i have "int i \<noteq> int (length rules) - 1 \<longleftrightarrow> i \<noteq> length rules - 1"
      by auto
    with bad descr show ?thesis
      by (auto simp: rule process_rule_dict)
  qed
  have loop: "\<exists>err. process_ruleset reg w (PList rules) = Inl err" for w
    by (rule process_ruleset_fails [OF i fail])
  have first: "process_ruleset reg w (PList rules) = Inl invalid_ruleset"
    if "\<forall>j < i. \<exists>sr. process_rule reg w (length rules) j (rules ! j) = Inr sr" for w
    by (rule process_ruleset_first_failure [OF i fail that])
  have handler: "(\<exists>err. StateHandler_put reg expl p st = Inl err) \<and>
            (\<forall>st5. put_prelude reg expl p st = Inr st5 \<and>
               (\<forall>j < i. \<exists>sr.
                  process_rule reg
                    (get_widget_by_id reg ''interactive'' (widget_id (widget st5)))
                    (length rules) j (rules ! j) = Inr sr) \<longrightarrow>
               StateHandler_put reg expl p st = Inl invalid_ruleset)"
    if pl: "payload_get p ''interactive_rulesets'' = PDict rs"
      "map_of rs ''submit'' = Some raw"
      "recursively_remove_key reg raw ''$$hashKey'' = PList rules"
  proof (intro conjI allI impI)
    from loop have "\<forall>w. \<exists>err. process_ruleset reg w (PList rules) = Inl err"
      by blast
    from StateHandler_put_never_saves [OF pl this]
    show "\<exists>err. StateHandler_put reg expl p st = Inl err" .
  next
    fix st5
    assume a: "put_prelude reg expl p st = Inr st5 \<and>
               (\<forall>j < i. \<exists>sr.
                  process_rule reg
                    (get_widget_by_id reg ''interactive'' (widget_id (widget st5)))
                    (length rules) j (rules ! j) = Inr sr)"
    then have "process_ruleset reg
                 (get_widget_by_id reg ''interactive'' (widget_id (widget st5)))
                 (PList rules) = Inl invalid_ruleset"
      by (intro first) simp
    with a StateHandler_put_ruleset_error [OF pl] show
      "StateHandler_put reg expl p st = Inl invalid_ruleset"
      by blast
  qed
  from fail loop first handler show ?thesis
    by blast
qed


theorem default_rule_must_be_last_witness:
  "StateHandler_put sample_registry (sample_exploration ''e1'')
     (ruleset_payload [PDict default_fields, PDict ok_fields]) (sample_state ''s1'')
     = Inl invalid_ruleset \<and>
   StateHandler_put sample_registry (sample_exploration ''e1'')
     (ruleset_payload [PDict ok_fields, PDict misnamed_fields]) (sample_state ''s1'')
     = Inl invalid_ruleset"
proof -
  have d1: "map_of default_fields ''description''
              = Some (PStr (DEFAULT_RULE_NAME sample_registry))"
    by code_simp
  have d2: "map_of misnamed_fields ''description''
              = Some (PStr (DEFAULT_RULE_NAME sample_registry))"
    "map_of misnamed_fields ''name'' = Some (PStr ''Other'')"
    "PStr ''Other'' \<noteq> PStr (DEFAULT_RULE_NAME sample_registry)"
    by code_simp+
  have pl: "payload_get (ruleset_payload rules) ''interactive_rulesets''
              = PDict [(''submit'', PList rules)]"
    "map_of [(''submit'', PList rules)] ''submit'' = Some (PList rules)" for rules
    by (simp_all add: ruleset_payload_def payload_get_def)
  have clean: "recursively_remove_key sample_registry
                 (PList [PDict default_fields, PDict ok_fields]) ''$$hashKey''
               = PList [PDict default_fields, PDict ok_fields]"
    "recursively_remove_key sample_registry
                 (PList [PDict ok_fields, PDict misnamed_fields]) ''$$hashKey''
               = PList [PDict ok_fields, PDict misnamed_fields]"
    by code_simp+
  have pre: "put_prelude sample_registry (sample_exploration ''e1'')
               (ruleset_payload [PDict default_fields, PDict ok_fields]) (sample_state ''s1'')
             = Inr (sample_state ''s1'')"
    "put_prelude sample_registry (sample_exploration ''e1'')
               (ruleset_payload [PDict ok_fields, PDict misnamed_fields]) (sample_state ''s1'')
             = Inr (sample_state ''s1'')"
    by code_simp+
  have "isl (process_rule sample_registry
               (get_widget_by_id sample_registry ''interactive''
                  (widget_id (widget (sample_state ''s1''))))
               2 0 (PDict ok_fields)) = False"
    by code_simp
  then have first_ok: "\<forall>j < 1. \<exists>sr.
      process_rule sample_registry
        (get_widget_by_id sample_registry ''interactive''
           (widget_id (widget (sample_state ''s1''))))
        (length [PDict ok_fields, PDict misnamed_fields]) j
        ([PDict ok_fields, PDict misnamed_fields] ! j) = Inr sr"
    by (cases "process_rule sample_registry
               (get_widget_by_id sample_registry ''interactive''
                  (widget_id (widget (sample_state ''s1''))))
               2 0 (PDict ok_fields)") (simp_all add: numeral_2_eq_2)
  have a: "StateHandler_put sample_registry (sample_exploration ''e1'')
     (ruleset_payload [PDict default_fields, PDict ok_fields]) (sample_state ''s1'')
     = Inl invalid_ruleset"
    using default_rule_must_be_last
            [where i = 0 and rules = "[PDict default_fields, PDict ok_fields]"
               and d = default_fields and reg = sample_registry
               and p = "ruleset_payload [PDict default_fields, PDict ok_fields]"
               and rs = "[(''submit'', PList [PDict default_fields, PDict ok_fields])]"
               and raw = "PList [PDict default_fields, PDict ok_fields]"
               and expl = "sample_exploration ''e1''" and st = "sample_state ''s1''"
               and gw = "''widget''"]
          d1 pl clean(1) pre(1)
    by simp
  have b: "StateHandler_put sample_registry (sample_exploration ''e1'')
     (ruleset_payload [PDict ok_fields, PDict misnamed_fields]) (sample_state ''s1'')
     = Inl invalid_ruleset"
    using default_rule_must_be_last
            [where i = 1 and rules = "[PDict ok_fields, PDict misnamed_fields]"
               and d = misnamed_fields and reg = sample_registry
               and p = "ruleset_payload [PDict ok_fields, PDict misnamed_fields]"
               and rs = "[(''submit'', PList [PDict ok_fields, PDict misnamed_fields])]"
               and raw = "PList [PDict ok_fields, PDict misnamed_fields]"
               and expl = "sample_exploration ''e1''" and st = "sample_state ''s1''"
               and gw = "''widget''"]
          d2 pl clean(2) pre(2) first_ok
    by simp
  from a b show ?thesis by simp
qed

text \<open>
  The claim as stated promises a ValueError for every such rule. A last rule described
  as default that has no name at all fails at \<open>rule['name']\<close> with a KeyError; and a
  misnamed default rule that follows a rule with an input of the wrong type is never
  reached, since that earlier rule raises InvalidInputException.
\<close>

theorem default_rule_must_be_last_counterexample:
  "map_of unnamed_fields ''description'' = Some (PStr (DEFAULT_RULE_NAME sample_registry)) \<and>
   map_of unnamed_fields ''name'' \<noteq> Some (PStr (DEFAULT_RULE_NAME sample_registry)) \<and>
   StateHandler_put sample_registry (sample_exploration ''e1'')
     (ruleset_payload [PDict unnamed_fields]) (sample_state ''s1'') = Inl KeyError \<and>
   map_of misnamed_fields ''description'' = Some (PStr (DEFAULT_RULE_NAME sample_registry)) \<and>
   map_of misnamed_fields ''name'' \<noteq> Some (PStr (DEFAULT_RULE_NAME sample_registry)) \<and>
   StateHandler_put sample_registry (sample_exploration ''e1'')
     (ruleset_payload [PDict bad_input_fields, PDict misnamed_fields]) (sample_state ''s1'')
     = Inl (InvalidInputException ''abc has the wrong type. Please replace it with a Int.'')"
  by code_simp

section \<open>Saving a state: normalizing the inputs of a rule\<close>

lemma normalize_param_stored:
  "normalize_param reg mr (PStr k) v =
     (if stored_value reg mr k v = PNone
      then Inl (InvalidInputException
                  (format_value reg v @ '' has the wrong type. Please replace it with a ''
                     @ type_name reg (get_obj_type_for_param_name reg mr (PStr k)) @ ''.''))
      else Inr (stored_value reg mr k v))"
  by (simp add: normalize_param_def stored_value_def Let_def)

lemma update_append_fresh:
  "k \<notin> fst ` set done \<Longrightarrow>
   AList.update k v (done @ (k, w) # rest) = done @ (k, v) # rest"
  by (induction "done") auto

lemma map_of_append_fresh:
  "k \<notin> fst ` set done \<Longrightarrow> map_of (done @ (k, w) # rest) k = Some w"
  by (induction "done") auto

lemma dict_loop_step:
  assumes "k \<notin> fst ` set done"
  shows "normalize_dict_loop reg mr (k # ks) (done @ (k, v) # rest) =
           and_then (normalize_param reg mr (PStr k) v) (\<lambda>normalized_param.
             normalize_dict_loop reg mr ks (done @ (k, normalized_param) # rest))"
proof -
  have "py_getitem (PDict (done @ (k, v) # rest)) (PStr k) = Inr v"
    using map_of_append_fresh [OF assms] by (simp del: map_of_append)
  then show ?thesis
    using update_append_fresh [OF assms]
    by (simp del: py_getitem.simps map_of_append)
qed

lemma dict_loop_ok:
  "distinct (map fst (done @ todo)) \<Longrightarrow>
   \<forall>(k, v) \<in> set todo. stored_value reg mr k v \<noteq> PNone \<Longrightarrow>
   normalize_dict_loop reg mr (map fst todo) (done @ todo)
     = Inr (done @ map (\<lambda>(k, v). (k, stored_value reg mr k v)) todo)"
proof (induction todo arbitrary: "done")
  case Nil
  then show ?case by simp
next
  case (Cons kv todo)
  obtain k v where kv: "kv = (k, v)" by (cases kv)
  from Cons.prems kv have fresh: "k \<notin> fst ` set done" by auto
  from Cons.prems kv have ok: "stored_value reg mr k v \<noteq> PNone" by auto
  from Cons.prems kv have d: "distinct (map fst ((done @ [(k, stored_value reg mr k v)]) @ todo))"
    by auto
  from Cons.prems have rest: "\<forall>(k, v) \<in> set todo. stored_value reg mr k v \<noteq> PNone"
    by auto
  from Cons.IH [OF d rest] ok show ?case
    by (simp add: kv dict_loop_step [OF fresh] normalize_param_stored del: normalize_dict_loop.simps)
qed

lemma dict_loop_fail:
  "distinct (map fst (done @ todo)) \<Longrightarrow>
   \<exists>(k, v) \<in> set todo. stored_value reg mr k v = PNone \<Longrightarrow>
   \<exists>msg. normalize_dict_loop reg mr (map fst todo) (done @ todo)
            = Inl (InvalidInputException msg)"
proof (induction todo arbitrary: "done")
  case Nil
  then show ?case by simp
next
  case (Cons kv todo)
  obtain k v where kv: "kv = (k, v)" by (cases kv)
  from Cons.prems kv have fresh: "k \<notin> fst ` set done" by auto
  show ?case
  proof (cases "stored_value reg mr k v = PNone")
    case True
    then show ?thesis
      by (simp add: kv dict_loop_step [OF fresh] normalize_param_stored del: normalize_dict_loop.simps)
  next
    case False
    from Cons.prems kv have d: "distinct (map fst ((done @ [(k, stored_value reg mr k v)]) @ todo))"
      by auto
    from Cons.prems kv False have rest: "\<exists>(k, v) \<in> set todo. stored_value reg mr k v = PNone"
      by auto
    from Cons.IH [OF d rest] False show ?thesis
      by (simp add: kv dict_loop_step [OF fresh] normalize_param_stored del: normalize_dict_loop.simps)
  qed
qed


text \<open>
  A ruleset whose rules are all processed without exception yields their rule specs in
  order, and the handler saves the state with exactly these rule specs.
\<close>

lemma process_rules_all_ok:
  assumes "\<forall>j \<in> set idxs. \<exists>rule. py_getitem ruleset (PInt (int j)) = Inr rule \<and>
             process_rule reg gw n j rule = Inr (sp j)"
  shows "process_rules reg gw ruleset n idxs specs = Inr (specs @ map sp idxs)"
  using assms
proof (induction idxs arbitrary: specs)
  case Nil
  then show ?case by simp
next
  case (Cons j idxs)
  then obtain rj where "py_getitem ruleset (PInt (int j)) = Inr rj"
    "process_rule reg gw n j rj = Inr (sp j)"
    by auto
  with Cons show ?case by simp
qed

lemma process_ruleset_ok:
  assumes "\<forall>j < length rules. process_rule reg gw (length rules) j (rules ! j) = Inr (sp j)"
  shows "process_ruleset reg gw (PList rules) = Inr (map sp [0..<length rules])"
proof -
  have "\<forall>j \<in> set [0..<length rules]. \<exists>rule.
          py_getitem (PList rules) (PInt (int j)) = Inr rule \<and>
          process_rule reg gw (length rules) j rule = Inr (sp j)"
  proof
    fix j assume "j \<in> set [0..<length rules]"
    then have j: "j < length rules" by simp
    from py_getitem_list_nat [OF j] assms j
    show "\<exists>rule. py_getitem (PList rules) (PInt (int j)) = Inr rule \<and>
            process_rule reg gw (length rules) j rule = Inr (sp j)"
      by blast
  qed
  from process_rules_all_ok [OF this, of "[]"] show ?thesis
    by (simp add: process_ruleset_def)
qed

lemma put_content_widget: "put_content c st = Inr st' \<Longrightarrow> widget st' = widget st"
  by (auto simp: put_content_def and_then_Inr_iff split: if_splits)

lemma StateHandler_put_ruleset_saved:
  assumes "payload_get p ''interactive_rulesets'' = PDict rs"
    and "map_of rs ''submit'' = Some raw"
    and "recursively_remove_key reg raw ''$$hashKey'' = ruleset"
    and "put_prelude reg expl p st = Inr st5"
    and "process_ruleset reg (get_widget_by_id reg ''interactive'' (widget_id (widget st5)))
           ruleset = Inr specs"
    and "put_content (payload_get p ''content'')
           (st5\<lparr>widget := (widget st5)\<lparr>handlers :=
                   [\<lparr>handler_name = ''submit'', rule_specs = specs\<rparr>]\<rparr>\<rparr>) = Inr st7"
  shows "\<exists>res. StateHandler_put reg expl p st = Inr res \<and> saved_state res = st7 \<and>
           handlers (widget (saved_state res))
             = [\<lparr>handler_name = ''submit'', rule_specs = specs\<rparr>]"
proof -
  from put_content_widget [OF assms(6)] have
    "handlers (widget st7) = [\<lparr>handler_name = ''submit'', rule_specs = specs\<rparr>]"
    by simp
  with assms(4,5,6) put_rulesets_submit [OF assms(1-3), of st5] show ?thesis
    by (simp add: StateHandler_put_def)
qed

text \<open>
  Claim C4. For a rule that is not described as the default rule and whose inputs are a
  dict: when no stored value comes out as None, the loop body yields the rule spec that
  holds, for every input, the normalization of its value by the parameter's type, and
  the value itself where it is a string containing both \<open>{{\<close> and \<open>}}\<close>; in any ruleset
  whose rules are all processed without exception, the loop appends this rule spec at
  the position of the rule, and the handler, once its other updates went through, saves
  the state with exactly the rule specs of the loop in its \<open>submit\<close> handler. When the
  normalization of some input that is no such string yields None, the loop body raises
  InvalidInputException, so the loop over any ruleset with this rule raises and the
  handler, once it has reached the ruleset, raises without saving the state.
\<close>

theorem rule_inputs_normalized:
  assumes descr: "map_of d ''description'' = Some description"
    and nondefault: "description \<noteq> PStr (DEFAULT_RULE_NAME reg)"
    and inputs: "dict_get d ''inputs'' = PDict kvs"
    and keys: "distinct (map fst kvs)"
    and mr: "mr = get_rule_by_name reg gw ''submit'' (dict_get d ''name'')"
  shows "((\<forall>(k, v) \<in> set kvs. stored_value reg mr k v \<noteq> PNone) \<longrightarrow>
            process_rule reg gw n i (PDict d) =
              Inr ((rule_spec_of d)
                     \<lparr>rule_inputs :=
                        PDict (map (\<lambda>(k, v). (k, stored_value reg mr k v)) kvs)\<rparr>) \<and>
            (\<forall>rules. i < length rules \<and> n = length rules \<and> rules ! i = PDict d \<and>
               (\<forall>j < length rules.
                  \<exists>sr. process_rule reg gw (length rules) j (rules ! j) = Inr sr) \<longrightarrow>
               (\<exists>specs.
                  process_ruleset reg gw (PList rules) = Inr specs \<and>
                  length specs = length rules \<and>
                  (\<forall>j < length rules.
                     process_rule reg gw (length rules) j (rules ! j) = Inr (specs ! j)) \<and>
                  specs ! i =
                    (rule_spec_of d)
                      \<lparr>rule_inputs :=
                         PDict (map (\<lambda>(k, v). (k, stored_value reg mr k v)) kvs)\<rparr> \<and>
                  (\<forall>rs raw st5 st7.
                     payload_get p ''interactive_rulesets'' = PDict rs \<and>
                     map_of rs ''submit'' = Some raw \<and>
                     recursively_remove_key reg raw ''$$hashKey'' = PList rules \<and>
                     put_prelude reg expl p st = Inr st5 \<and>
                     gw = get_widget_by_id reg ''interactive'' (widget_id (widget st5)) \<and>
                     put_content (payload_get p ''content'')
                       (st5\<lparr>widget := (widget st5)\<lparr>handlers :=
                               [\<lparr>handler_name = ''submit'', rule_specs = specs\<rparr>]\<rparr>\<rparr>)
                       = Inr st7 \<longrightarrow>
                     (\<exists>res. StateHandler_put reg expl p st = Inr res \<and>
                        saved_state res = st7 \<and>
                        handlers (widget (saved_state res))
                          = [\<lparr>handler_name = ''submit'', rule_specs = specs\<rparr>]))))) \<and>
         ((\<exists>(k, v) \<in> set kvs.
              \<not> is_template v \<and>
              normalize_obj reg (get_obj_type_for_param_name reg mr (PStr k)) v = PNone) \<longrightarrow>
            (\<exists>msg. process_rule reg gw n i (PDict d) = Inl (InvalidInputException msg)) \<and>
            (\<forall>rules. i < length rules \<and> n = length rules \<and> rules ! i = PDict d \<longrightarrow>
               (\<exists>err. process_ruleset reg gw (PList rules) = Inl err) \<and>
               (\<forall>rs raw st5.
                  payload_get p ''interactive_rulesets'' = PDict rs \<and>
                  map_of rs ''submit'' = Some raw \<and>
                  recursively_remove_key reg raw ''$$hashKey'' = PList rules \<and>
                  put_prelude reg expl p st = Inr st5 \<and>
                  gw = get_widget_by_id reg ''interactive'' (widget_id (widget st5)) \<longrightarrow>
                  (\<exists>err. StateHandler_put reg expl p st = Inl err))))"
proof (rule conjI; intro impI)
  assume ok: "\<forall>(k, v) \<in> set kvs. stored_value reg mr k v \<noteq> PNone"
  from keys have "distinct (map fst ([] @ kvs))" by simp
  from dict_loop_ok [OF this ok] have
    "normalize_inputs reg mr (PDict kvs) =
       Inr (PDict (map (\<lambda>(k, v). (k, stored_value reg mr k v)) kvs))"
    by simp
  with descr nondefault inputs mr have body:
    "process_rule reg gw n i (PDict d) =
       Inr ((rule_spec_of d)
              \<lparr>rule_inputs := PDict (map (\<lambda>(k, v). (k, stored_value reg mr k v)) kvs)\<rparr>)"
    by (simp add: process_rule_dict)
  have loop: "\<exists>specs.
      process_ruleset reg gw (PList rules) = Inr specs \<and>
      length specs = length rules \<and>
      (\<forall>j < length rules.
         process_rule reg gw (length rules) j (rules ! j) = Inr (specs ! j)) \<and>
      specs ! i =
        (rule_spec_of d)
          \<lparr>rule_inputs := PDict (map (\<lambda>(k, v). (k, stored_value reg mr k v)) kvs)\<rparr> \<and>
      (\<forall>rs raw st5 st7.
         payload_get p ''interactive_rulesets'' = PDict rs \<and>
         map_of rs ''submit'' = Some raw \<and>
         recursively_remove_key reg raw ''$$hashKey'' = PList rules \<and>
         put_prelude reg expl p st = Inr st5 \<and>
         gw = get_widget_by_id reg ''interactive'' (widget_id (widget st5)) \<and>
         put_content (payload_get p ''content'')
           (st5\<lparr>widget := (widget st5)\<lparr>handlers :=
                   [\<lparr>handler_name = ''submit'', rule_specs = specs\<rparr>]\<rparr>\<rparr>)
           = Inr st7 \<longrightarrow>
         (\<exists>res. StateHandler_put reg expl p st = Inr res \<and>
            saved_state res = st7 \<and>
            handlers (widget (saved_state res))
              = [\<lparr>handler_name = ''submit'', rule_specs = specs\<rparr>]))"
    if r: "i < length rules \<and> n = length rules \<and> rules ! i = PDict d \<and>
           (\<forall>j < length rules.
              \<exists>sr. process_rule reg gw (length rules) j (rules ! j) = Inr sr)"
    for rules
  proof -
    define sp where "sp j = projr (process_rule reg gw (length rules) j (rules ! j))" for j
    define specs where "specs = map sp [0..<length rules]"
    from r have all: "\<forall>j < length rules.
        process_rule reg gw (length rules) j (rules ! j) = Inr (sp j)"
      by (auto simp: sp_def)
    from process_ruleset_ok [OF all] have 1: "process_ruleset reg gw (PList rules) = Inr specs"
      by (simp add: specs_def)
    have 2: "length specs = length rules"
      by (simp add: specs_def)
    have nth: "specs ! j = sp j" if "j < length rules" for j
      using that by (simp add: specs_def)
    from all nth have 3: "\<forall>j < length rules.
        process_rule reg gw (length rules) j (rules ! j) = Inr (specs ! j)"
      by simp
    from r body have "sp i =
        (rule_spec_of d)
          \<lparr>rule_inputs := PDict (map (\<lambda>(k, v). (k, stored_value reg mr k v)) kvs)\<rparr>"
      by (simp add: sp_def)
    with r nth have 4: "specs ! i =
        (rule_spec_of d)
          \<lparr>rule_inputs := PDict (map (\<lambda>(k, v). (k, stored_value reg mr k v)) kvs)\<rparr>"
      by simp
    have 5: "\<exists>res. StateHandler_put reg expl p st = Inr res \<and>
            saved_state res = st7 \<and>
            handlers (widget (saved_state res))
              = [\<lparr>handler_name = ''submit'', rule_specs = specs\<rparr>]"
      if "payload_get p ''interactive_rulesets'' = PDict rs \<and>
         map_of rs ''submit'' = Some raw \<and>
         recursively_remove_key reg raw ''$$hashKey'' = PList rules \<and>
         put_prelude reg expl p st = Inr st5 \<and>
         gw = get_widget_by_id reg ''interactive'' (widget_id (widget st5)) \<and>
         put_content (payload_get p ''content'')
           (st5\<lparr>widget := (widget st5)\<lparr>handlers :=
                   [\<lparr>handler_name = ''submit'', rule_specs = specs\<rparr>]\<rparr>\<rparr>)
           = Inr st7"
      for rs raw st5 st7
      using StateHandler_put_ruleset_saved
              [where p = p and rs = rs and raw = raw and reg = reg and ruleset = "PList rules"
                 and expl = expl and st = st and ?st5.0 = st5 and specs = specs
                 and ?st7.0 = st7]
            that 1
      by blast
    from 1 2 3 4 5 show ?thesis by blast
  qed
  from body loop show
    "process_rule reg gw n i (PDict d) =
       Inr ((rule_spec_of d)
              \<lparr>rule_inputs :=
                 PDict (map (\<lambda>(k, v). (k, stored_value reg mr k v)) kvs)\<rparr>) \<and>
     (\<forall>rules. i < length rules \<and> n = length rules \<and> rules ! i = PDict d \<and>
        (\<forall>j < length rules.
           \<exists>sr. process_rule reg gw (length rules) j (rules ! j) = Inr sr) \<longrightarrow>
        (\<exists>specs.
           process_ruleset reg gw (PList rules) = Inr specs \<and>
           length specs = length rules \<and>
           (\<forall>j < length rules.
              process_rule reg gw (length rules) j (rules ! j) = Inr (specs ! j)) \<and>
           specs ! i =
             (rule_spec_of d)
               \<lparr>rule_inputs :=
                  PDict (map (\<lambda>(k, v). (k, stored_value reg mr k v)) kvs)\<rparr> \<and>
           (\<forall>rs raw st5 st7.
              payload_get p ''interactive_rulesets'' = PDict rs \<and>
              map_of rs ''submit'' = Some raw \<and>
              recursively_remove_key reg raw ''$$hashKey'' = PList rules \<and>
              put_prelude reg expl p st = Inr st5 \<and>
              gw = get_widget_by_id reg ''interactive'' (widget_id (widget st5)) \<and>
              put_content (payload_get p ''content'')
                (st5\<lparr>widget := (widget st5)\<lparr>handlers :=
                        [\<lparr>handler_name = ''submit'', rule_specs = specs\<rparr>]\<rparr>\<rparr>)
                = Inr st7 \<longrightarrow>
              (\<exists>res. StateHandler_put reg expl p st = Inr res \<and>
                 saved_state res = st7 \<and>
                 handlers (widget (saved_state res))
                   = [\<lparr>handler_name = ''submit'', rule_specs = specs\<rparr>]))))"
    by blast
next
  assume "\<exists>(k, v) \<in> set kvs.
              \<not> is_template v \<and>
              normalize_obj reg (get_obj_type_for_param_name reg mr (PStr k)) v = PNone"
  then have bad: "\<exists>(k, v) \<in> set kvs. stored_value reg mr k v = PNone"
    by (auto simp: stored_value_def)
  from keys have "distinct (map fst ([] @ kvs))" by simp
  from dict_loop_fail [OF this bad] obtain msg where
    "normalize_inputs reg mr (PDict kvs) = Inl (InvalidInputException msg)"
    by auto
  with descr nondefault inputs mr have
    fail: "process_rule reg gw n i (PDict d) = Inl (InvalidInputException msg)"
    by (simp add: process_rule_dict)
  have "(\<exists>err. process_ruleset reg gw (PList rules) = Inl err) \<and>
        (\<forall>rs raw st5.
            payload_get p ''interactive_rulesets'' = PDict rs \<and>
            map_of rs ''submit'' = Some raw \<and>
            recursively_remove_key reg raw ''$$hashKey'' = PList rules \<and>
            put_prelude reg expl p st = Inr st5 \<and>
            gw = get_widget_by_id reg ''interactive'' (widget_id (widget st5)) \<longrightarrow>
            (\<exists>err. StateHandler_put reg expl p st = Inl err))"
    if r: "i < length rules \<and> n = length rules \<and> rules ! i = PDict d" for rules
  proof -
    from r fail have "process_rule reg gw (length rules) i (rules ! i)
                        = Inl (InvalidInputException msg)"
      by simp
    from process_ruleset_fails [OF _ this] r obtain err where
      err: "process_ruleset reg gw (PList rules) = Inl err"
      by blast
    have "\<exists>err. StateHandler_put reg expl p st = Inl err"
      if "payload_get p ''interactive_rulesets'' = PDict rs \<and>
            map_of rs ''submit'' = Some raw \<and>
            recursively_remove_key reg raw ''$$hashKey'' = PList rules \<and>
            put_prelude reg expl p st = Inr st5 \<and>
            gw = get_widget_by_id reg ''interactive'' (widget_id (widget st5))"
      for rs raw st5
      using StateHandler_put_ruleset_error [of p rs raw reg "PList rules" expl st st5 err]
        that err
      by blast
    with err show ?thesis by blast
  qed
  with fail show
    "(\<exists>msg. process_rule reg gw n i (PDict d) = Inl (InvalidInputException msg)) \<and>
     (\<forall>rules. i < length rules \<and> n = length rules \<and> rules ! i = PDict d \<longrightarrow>
        (\<exists>err. process_ruleset reg gw (PList rules) = Inl err) \<and>
        (\<forall>rs raw st5.
            payload_get p ''interactive_rulesets'' = PDict rs \<and>
            map_of rs ''submit'' = Some raw \<and>
            recursively_remove_key reg raw ''$$hashKey'' = PList rules \<and>
            put_prelude reg expl p st = Inr st5 \<and>
            gw = get_widget_by_id reg ''interactive'' (widget_id (widget st5)) \<longrightarrow>
            (\<exists>err. StateHandler_put reg expl p st = Inl err)))"
    by blast
qed

theorem rule_inputs_normalized_witness:
  "process_rule sample_registry ''widget'' 2 0 (PDict ok_fields) =
     Inr ((rule_spec_of ok_fields)
            \<lparr>rule_inputs := PDict [(''x'', PInt 3), (''y'', PStr ''{{answer}}'')]\<rparr>) \<and>
   (\<exists>res. StateHandler_put sample_registry (sample_exploration ''e1'')
             (ruleset_payload [PDict ok_fields, PDict default_fields])
             (sample_state ''s1'') = Inr res \<and>
          handlers (widget (saved_state res)) =
            [\<lparr>handler_name = ''submit'',
              rule_specs =
                [(rule_spec_of ok_fields)
                   \<lparr>rule_inputs := PDict [(''x'', PInt 3), (''y'', PStr ''{{answer}}'')]\<rparr>,
                 rule_spec_of default_fields]\<rparr>]) \<and>
   (\<exists>msg. process_rule sample_registry ''widget'' 2 0 (PDict bad_input_fields)
             = Inl (InvalidInputException msg)) \<and>
   (\<exists>err. StateHandler_put sample_registry (sample_exploration ''e1'')
             (ruleset_payload [PDict bad_input_fields, PDict default_fields])
             (sample_state ''s1'') = Inl err)"
proof -
  define ok_spec where
    "ok_spec = (rule_spec_of ok_fields)
                 \<lparr>rule_inputs := PDict [(''x'', PInt 3), (''y'', PStr ''{{answer}}'')]\<rparr>"
  have ok: "map_of ok_fields ''description'' = Some (PStr ''is equal to {{x}}'')"
    "PStr ''is equal to {{x}}'' \<noteq> PStr (DEFAULT_RULE_NAME sample_registry)"
    "dict_get ok_fields ''inputs'' = PDict [(''x'', PInt 3), (''y'', PStr ''{{answer}}'')]"
    "distinct (map fst [(''x'', PInt 3), (''y'', PStr ''{{answer}}'')])"
    "''rule'' = get_rule_by_name sample_registry ''widget'' ''submit'' (dict_get ok_fields ''name'')"
    by code_simp+
  have ok_vals: "\<forall>(k, v) \<in> set [(''x'', PInt 3), (''y'', PStr ''{{answer}}'')].
                   stored_value sample_registry ''rule'' k v \<noteq> PNone"
    "map (\<lambda>(k, v). (k, stored_value sample_registry ''rule'' k v))
       [(''x'', PInt 3), (''y'', PStr ''{{answer}}'')]
     = [(''x'', PInt 3), (''y'', PStr ''{{answer}}'')]"
    by code_simp+
  have bad: "map_of bad_input_fields ''description'' = Some (PStr ''is equal to {{x}}'')"
    "dict_get bad_input_fields ''inputs'' = PDict [(''x'', PStr ''abc'')]"
    "distinct (map fst [(''x'', PStr ''abc'')])"
    "(''widget'' :: string) = get_widget_by_id sample_registry ''interactive''
                  (widget_id (widget (sample_state ''s1'')))"
    "''rule'' = get_rule_by_name sample_registry ''widget'' ''submit''
                  (dict_get bad_input_fields ''name'')"
    by code_simp+
  have bad_val: "\<exists>(k, v) \<in> set [(''x'', PStr ''abc'')].
                   \<not> is_template v \<and>
                   normalize_obj sample_registry
                     (get_obj_type_for_param_name sample_registry ''rule'' (PStr k)) v = PNone"
    by code_simp
  have pl: "payload_get (ruleset_payload rules) ''interactive_rulesets''
              = PDict [(''submit'', PList rules)]"
    "map_of [(''submit'', PList rules)] ''submit'' = Some (PList rules)"
    "payload_get (ruleset_payload rules) ''content'' = PNone" for rules
    by (simp_all add: ruleset_payload_def payload_get_def)
  have clean: "recursively_remove_key sample_registry
                 (PList [PDict bad_input_fields, PDict default_fields]) ''$$hashKey''
               = PList [PDict bad_input_fields, PDict default_fields]"
    "recursively_remove_key sample_registry
                 (PList [PDict ok_fields, PDict default_fields]) ''$$hashKey''
               = PList [PDict ok_fields, PDict default_fields]"
    by code_simp+
  have pre: "put_prelude sample_registry (sample_exploration ''e1'')
               (ruleset_payload [PDict bad_input_fields, PDict default_fields])
               (sample_state ''s1'')
             = Inr (sample_state ''s1'')"
    "put_prelude sample_registry (sample_exploration ''e1'')
               (ruleset_payload [PDict ok_fields, PDict default_fields])
               (sample_state ''s1'')
             = Inr (sample_state ''s1'')"
    by code_simp+
  have others: "process_rule sample_registry ''widget'' 2 0 (PDict ok_fields) = Inr ok_spec"
    "process_rule sample_registry ''widget'' 2 1 (PDict default_fields)
       = Inr (rule_spec_of default_fields)"
    unfolding ok_spec_def by code_simp+
  note good = rule_inputs_normalized
            [where d = ok_fields and reg = sample_registry and gw = "''widget''"
               and mr = "''rule''" and n = 2 and i = 0
               and p = "ruleset_payload [PDict ok_fields, PDict default_fields]"
               and expl = "sample_exploration ''e1''" and st = "sample_state ''s1''",
             OF ok(1,2,3,4,5)]
  from good ok_vals have a:
    "process_rule sample_registry ''widget'' 2 0 (PDict ok_fields) = Inr ok_spec"
    by (simp add: ok_spec_def)
  have all_ok: "\<forall>j < length [PDict ok_fields, PDict default_fields].
      \<exists>sr. process_rule sample_registry ''widget''
             (length [PDict ok_fields, PDict default_fields]) j
             ([PDict ok_fields, PDict default_fields] ! j) = Inr sr"
    using others by (auto simp: less_Suc_eq numeral_2_eq_2)
  have hyp: "0 < length [PDict ok_fields, PDict default_fields] \<and>
      2 = length [PDict ok_fields, PDict default_fields] \<and>
      [PDict ok_fields, PDict default_fields] ! 0 = PDict ok_fields \<and>
      (\<forall>j < length [PDict ok_fields, PDict default_fields].
         \<exists>sr. process_rule sample_registry ''widget''
                (length [PDict ok_fields, PDict default_fields]) j
                ([PDict ok_fields, PDict default_fields] ! j) = Inr sr)"
    using all_ok by (intro conjI) simp_all
  note loop = good [THEN conjunct1, THEN mp, OF ok_vals(1), THEN conjunct2, THEN spec,
                    THEN mp, OF hyp]
  from loop have "\<exists>specs.
      process_ruleset sample_registry ''widget'' (PList [PDict ok_fields, PDict default_fields])
        = Inr specs \<and>
      (\<forall>rs raw st5 st7.
         payload_get (ruleset_payload [PDict ok_fields, PDict default_fields])
           ''interactive_rulesets'' = PDict rs \<and>
         map_of rs ''submit'' = Some raw \<and>
         recursively_remove_key sample_registry raw ''$$hashKey''
           = PList [PDict ok_fields, PDict default_fields] \<and>
         put_prelude sample_registry (sample_exploration ''e1'')
           (ruleset_payload [PDict ok_fields, PDict default_fields])
           (sample_state ''s1'') = Inr st5 \<and>
         ''widget'' = get_widget_by_id sample_registry ''interactive''
                        (widget_id (widget st5)) \<and>
         put_content
           (payload_get (ruleset_payload [PDict ok_fields, PDict default_fields])
              ''content'')
           (st5\<lparr>widget := (widget st5)\<lparr>handlers :=
                   [\<lparr>handler_name = ''submit'', rule_specs = specs\<rparr>]\<rparr>\<rparr>)
           = Inr st7 \<longrightarrow>
         (\<exists>res. StateHandler_put sample_registry (sample_exploration ''e1'')
                   (ruleset_payload [PDict ok_fields, PDict default_fields])
                   (sample_state ''s1'') = Inr res \<and>
            saved_state res = st7 \<and>
            handlers (widget (saved_state res))
              = [\<lparr>handler_name = ''submit'', rule_specs = specs\<rparr>]))"
    by (elim exE conjE) (intro exI conjI; assumption)
  then obtain specs where sp:
     "process_ruleset sample_registry ''widget'' (PList [PDict ok_fields, PDict default_fields])
        = Inr specs \<and>
      (\<forall>rs raw st5 st7.
         payload_get (ruleset_payload [PDict ok_fields, PDict default_fields])
           ''interactive_rulesets'' = PDict rs \<and>
         map_of rs ''submit'' = Some raw \<and>
         recursively_remove_key sample_registry raw ''$$hashKey''
           = PList [PDict ok_fields, PDict default_fields] \<and>
         put_prelude sample_registry (sample_exploration ''e1'')
           (ruleset_payload [PDict ok_fields, PDict default_fields])
           (sample_state ''s1'') = Inr st5 \<and>
         ''widget'' = get_widget_by_id sample_registry ''interactive''
                        (widget_id (widget st5)) \<and>
         put_content
           (payload_get (ruleset_payload [PDict ok_fields, PDict default_fields])
              ''content'')
           (st5\<lparr>widget := (widget st5)\<lparr>handlers :=
                   [\<lparr>handler_name = ''submit'', rule_specs = specs\<rparr>]\<rparr>\<rparr>)
           = Inr st7 \<longrightarrow>
         (\<exists>res. StateHandler_put sample_registry (sample_exploration ''e1'')
                   (ruleset_payload [PDict ok_fields, PDict default_fields])
                   (sample_state ''s1'') = Inr res \<and>
            saved_state res = st7 \<and>
            handlers (widget (saved_state res))
              = [\<lparr>handler_name = ''submit'', rule_specs = specs\<rparr>]))"
    ..
  have "process_ruleset sample_registry ''widget''
          (PList [PDict ok_fields, PDict default_fields])
        = Inr [ok_spec, rule_spec_of default_fields]"
    unfolding ok_spec_def by code_simp
  with sp [THEN conjunct1] have specs: "specs = [ok_spec, rule_spec_of default_fields]"
    by simp
  define st6 where
    "st6 = (sample_state ''s1'')
             \<lparr>widget := (widget (sample_state ''s1''))\<lparr>handlers :=
                [\<lparr>handler_name = ''submit'', rule_specs = specs\<rparr>]\<rparr>\<rparr>"
  have content: "put_content
               (payload_get (ruleset_payload [PDict ok_fields, PDict default_fields])
                  ''content'') st6 = Inr st6"
    by (simp add: pl put_content_def)
  have hs: "payload_get (ruleset_payload [PDict ok_fields, PDict default_fields])
           ''interactive_rulesets''
           = PDict [(''submit'', PList [PDict ok_fields, PDict default_fields])] \<and>
         map_of [(''submit'', PList [PDict ok_fields, PDict default_fields])] ''submit''
           = Some (PList [PDict ok_fields, PDict default_fields]) \<and>
         recursively_remove_key sample_registry
           (PList [PDict ok_fields, PDict default_fields]) ''$$hashKey''
           = PList [PDict ok_fields, PDict default_fields] \<and>
         put_prelude sample_registry (sample_exploration ''e1'')
           (ruleset_payload [PDict ok_fields, PDict default_fields])
           (sample_state ''s1'') = Inr (sample_state ''s1'') \<and>
         ''widget'' = get_widget_by_id sample_registry ''interactive''
                        (widget_id (widget (sample_state ''s1''))) \<and>
         put_content
           (payload_get (ruleset_payload [PDict ok_fields, PDict default_fields])
              ''content'')
           ((sample_state ''s1'')
              \<lparr>widget := (widget (sample_state ''s1''))\<lparr>handlers :=
                 [\<lparr>handler_name = ''submit'', rule_specs = specs\<rparr>]\<rparr>\<rparr>)
           = Inr st6"
    using pl(1,2) clean(2) pre(2) bad(4) content [unfolded st6_def]
    unfolding st6_def by (intro conjI) assumption+
  from sp [THEN conjunct2, THEN spec, THEN spec, THEN spec, THEN spec, THEN mp, OF hs]
  obtain res where res:
    "StateHandler_put sample_registry (sample_exploration ''e1'')
       (ruleset_payload [PDict ok_fields, PDict default_fields])
       (sample_state ''s1'') = Inr res \<and>
     saved_state res = st6 \<and>
     handlers (widget (saved_state res))
       = [\<lparr>handler_name = ''submit'', rule_specs = specs\<rparr>]"
    ..
  then have a2: "\<exists>res. StateHandler_put sample_registry (sample_exploration ''e1'')
             (ruleset_payload [PDict ok_fields, PDict default_fields])
             (sample_state ''s1'') = Inr res \<and>
          handlers (widget (saved_state res)) =
            [\<lparr>handler_name = ''submit'',
              rule_specs = [ok_spec, rule_spec_of default_fields]\<rparr>]"
    unfolding specs by (elim conjE) (intro exI [of _ res] conjI; assumption)
  note b = rule_inputs_normalized
            [where d = bad_input_fields and reg = sample_registry and gw = "''widget''"
               and mr = "''rule''" and n = 2 and i = 0
               and p = "ruleset_payload [PDict bad_input_fields, PDict default_fields]"
               and expl = "sample_exploration ''e1''" and st = "sample_state ''s1''",
             OF bad(1) ok(2) bad(2,3,5)]
  from b bad_val have b1:
    "\<exists>msg. process_rule sample_registry ''widget'' 2 0 (PDict bad_input_fields)
             = Inl (InvalidInputException msg)"
    by blast
  from b bad_val have b2:
    "\<forall>rules. 0 < length rules \<and> 2 = length rules \<and> rules ! 0 = PDict bad_input_fields \<longrightarrow>
       (\<forall>rs raw st5.
          payload_get (ruleset_payload [PDict bad_input_fields, PDict default_fields])
            ''interactive_rulesets'' = PDict rs \<and>
          map_of rs ''submit'' = Some raw \<and>
          recursively_remove_key sample_registry raw ''$$hashKey'' = PList rules \<and>
          put_prelude sample_registry (sample_exploration ''e1'')
            (ruleset_payload [PDict bad_input_fields, PDict default_fields])
            (sample_state ''s1'') = Inr st5 \<and>
          ''widget'' = get_widget_by_id sample_registry ''interactive''
                         (widget_id (widget st5)) \<longrightarrow>
          (\<exists>err. StateHandler_put sample_registry (sample_exploration ''e1'')
                    (ruleset_payload [PDict bad_input_fields, PDict default_fields])
                    (sample_state ''s1'') = Inl err))"
    by blast
  have b3: "\<exists>err. StateHandler_put sample_registry (sample_exploration ''e1'')
             (ruleset_payload [PDict bad_input_fields, PDict default_fields])
             (sample_state ''s1'') = Inl err"
    using b2 [rule_format, of "[PDict bad_input_fields, PDict default_fields]"
                "[(''submit'', PList [PDict bad_input_fields, PDict default_fields])]"
                "PList [PDict bad_input_fields, PDict default_fields]" "sample_state ''s1''"]
          pl clean pre bad(4)
    by simp
  from a a2 b1 b3 show ?thesis
    unfolding ok_spec_def by (intro conjI) assumption+
qed

end
